theory Spec2Isabelle
  imports Complex_Main
begin

section \<open>JavaScript strings\<close>

text \<open>
  A JavaScript string is a sequence of UTF-16 code units; a code unit is modelled as an
  \<open>int\<close>, and \<open>asc\<close> reads an ASCII literal as a string of code units. \<open>length\<close> counts code
  units, as \<open>.length\<close> does. Numbers of the source are doubles; the model computes with
  exact integers and rationals, which agree with the doubles on every value the modelled
  functions produce for inputs of realistic size.
\<close>

type_synonym jstring = "int list"

definition asc :: "string \<Rightarrow> jstring" where
  "asc s = map of_char s"

text \<open>
  The regular expression class \<open>\s\<close>, which is also what \<open>trim\<close> removes: tab, line feed,
  vertical tab, form feed, carriage return, space, no-break space, U+1680, U+2000 to
  U+200A, the line and paragraph separators U+2028 and U+2029, U+202F, U+205F, U+3000
  and the byte order mark U+FEFF.
\<close>

definition isSpace :: "int \<Rightarrow> bool" where
  "isSpace c =
     (c \<in> set [0x09, 0x0A, 0x0B, 0x0C, 0x0D, 0x20, 0xA0, 0x1680,
                0x2000, 0x2001, 0x2002, 0x2003, 0x2004, 0x2005, 0x2006, 0x2007, 0x2008,
                0x2009, 0x200A, 0x2028, 0x2029, 0x202F, 0x205F, 0x3000, 0xFEFF])"

text \<open>
  \<open>toLowerCase\<close>, one code unit at a time. Up to U+00FF it is the Unicode mapping: \<open>A..Z\<close>
  and the capital letters U+00C0 to U+00DE, without the multiplication sign U+00D7, move
  up by 32. Above U+00FF the two units whose lower case has an ASCII letter are mapped,
  U+0130 to \<open>i\<close> with U+0307 and the Kelvin sign U+212A to \<open>k\<close>; every other unit is kept,
  where the platform would consult its Unicode tables. So the ASCII letters, the digits
  and the white space of a lower-cased string, which is all that \<open>tokenize\<close> and the
  matching of tokens look at, are those of the source for every string.
\<close>

definition lowerUnit :: "int \<Rightarrow> jstring" where
  "lowerUnit c =
     (if (0x41 \<le> c \<and> c \<le> 0x5A) \<or> (0xC0 \<le> c \<and> c \<le> 0xDE \<and> c \<noteq> 0xD7) then [c + 32]
      else if c = 0x130 then [0x69, 0x307]
      else if c = 0x212A then [0x6B]
      else [c])"

definition toLowerCase :: "jstring \<Rightarrow> jstring" where
  "toLowerCase s = concat (map lowerUnit s)"

definition str_trim :: "jstring \<Rightarrow> jstring" where
  "str_trim s = rev (dropWhile isSpace (rev (dropWhile isSpace s)))"

definition startsWith :: "jstring \<Rightarrow> jstring \<Rightarrow> bool" where
  "startsWith s t = (take (length t) s = t)"

text \<open>\<open>str_includes s t\<close> is \<open>s.includes(t)\<close>: \<open>t\<close> occurs in \<open>s\<close> at some position.\<close>

fun str_includes :: "jstring \<Rightarrow> jstring \<Rightarrow> bool" where
  "str_includes [] t = (t = [])"
| "str_includes (c # cs) t = (startsWith (c # cs) t \<or> str_includes cs t)"

text \<open>\<open>join sep xs\<close> is \<open>xs.join(sep)\<close>.\<close>

fun join :: "jstring \<Rightarrow> jstring list \<Rightarrow> jstring" where
  "join sep [] = []"
| "join sep [x] = x"
| "join sep (x # y # ys) = x @ sep @ join sep (y # ys)"

text \<open>
  \<open>splitWs s []\<close> is \<open>s.split(/\s+/)\<close>: the pieces between the maximal runs of white space,
  with an empty piece before a leading run and after a trailing one.
\<close>

function splitWs :: "jstring \<Rightarrow> jstring \<Rightarrow> jstring list" where
  "splitWs [] cur = [cur]"
| "splitWs (c # cs) cur =
     (if isSpace c then cur # splitWs (dropWhile isSpace cs) []
      else splitWs cs (cur @ [c]))"
  by pat_completeness auto
termination
  by (relation "measure (\<lambda>(s, cur). length s)")
     (auto simp: less_Suc_eq_le length_dropWhile_le)

text \<open>
  \<open>countMatches pat s\<close> is \<open>(s.match(new RegExp(pat, 'g')) || []).length\<close> for a pattern
  that is a literal string: the matches are found from left to right and do not overlap.
  The empty pattern matches once at every position, also at the end.
\<close>

fun countMatches :: "jstring \<Rightarrow> jstring \<Rightarrow> nat" where
  "countMatches pat [] = (if pat = [] then 1 else 0)"
| "countMatches pat (c # cs) =
     (if startsWith (c # cs) pat then Suc (countMatches pat (drop (length pat - 1) cs))
      else countMatches pat cs)"

fun showNat :: "nat \<Rightarrow> jstring" where
  "showNat n =
     (if n < 10 then [0x30 + int n]
      else showNat (n div 10) @ [0x30 + int (n mod 10)])"

declare showNat.simps [simp del]

definition nl :: jstring where
  "nl = [0x0A]"

text \<open>
  The exceptions of the modelled code: a \<open>TypeError\<close> of the runtime (a property read on
  \<open>null\<close> or \<open>undefined\<close>), the \<open>SyntaxError\<close> of \<open>response.json()\<close> on a body that is
  not JSON, the rejection of \<open>fetch\<close> itself, and the \<open>Error\<close> thrown by \<open>load\<close> when the
  response status is not ok.
\<close>

datatype js_error = TypeError | SyntaxError | FetchFailed | LoadFailed

section \<open>The indexer: token estimates and LLM chunks (indexer.js)\<close>

record page_section =
  s_heading :: "jstring option"
  s_headingLevel :: nat
  s_anchor :: jstring
  s_content :: jstring
  s_contentPreview :: jstring

record metadata =
  m_title :: jstring
  m_category :: jstring
  m_version :: jstring
  m_breadcrumb :: "jstring list"
  m_description :: jstring

record chunk =
  c_id :: jstring
  c_url :: jstring
  c_title :: jstring
  c_category :: jstring
  c_version :: jstring
  c_content :: jstring
  c_tokenEstimate :: nat
  c_chunkIndex :: "nat option"
  c_chunkTotal :: "nat option"
  c_sectionRange :: "jstring option"
  c_sectionStartIndex :: "nat option"
  c_sectionEndIndex :: "int option"

text \<open>The characters of the class \<open>[#*_`\[\]()]\<close>.\<close>

definition isMarkdownChar :: "int \<Rightarrow> bool" where
  "isMarkdownChar c = (c \<in> set (asc ''#*_`[]()''))"

text \<open>
  \<open>estimateTokens\<close>, with \<open>Math.ceil(x * 0.1)\<close> and \<open>Math.ceil(x * 1.3)\<close> on the exact
  rationals \<open>1/10\<close> and \<open>13/10\<close>.
\<close>

definition estimateTokens :: "jstring \<Rightarrow> nat" where
  "estimateTokens text =
     (if text = [] then 0
      else
        let words = filter (\<lambda>w. length w > 0) (splitWs text []);
            tokens = length words;
            markdownChars = length (filter isMarkdownChar text);
            tokens = tokens + nat \<lceil>rat_of_nat markdownChars * (1 / 10)\<rceil>;
            codeBlocks = countMatches (asc ''[Code]'') text;
            tokens = tokens + nat \<lceil>rat_of_nat codeBlocks * 50\<rceil>;
            tables = countMatches (asc ''[Table]'') text;
            tokens = tokens + nat \<lceil>rat_of_nat tables * 20\<rceil>
        in nat \<lceil>rat_of_nat tokens * (13 / 10)\<rceil>)"

text \<open>
  The token count as the specification words it: the words, plus 10% of the markdown
  characters, plus 50 per \<open>[Code]\<close> and 20 per \<open>[Table]\<close>, the sum scaled by 1.3 and
  rounded up.
\<close>

definition estimateTokens_spec :: "jstring \<Rightarrow> nat" where
  "estimateTokens_spec text =
     nat \<lceil>(rat_of_nat (length (filter (\<lambda>w. length w > 0) (splitWs text [])))
           + rat_of_nat (length (filter isMarkdownChar text)) * (1 / 10)
           + 50 * rat_of_nat (countMatches (asc ''[Code]'') text)
           + 20 * rat_of_nat (countMatches (asc ''[Table]'') text)) * (13 / 10)\<rceil>"

text \<open>A heading is used when it is truthy: neither \<open>null\<close> nor the empty string.\<close>

definition truthyStr :: "jstring option \<Rightarrow> bool" where
  "truthyStr h = (case h of None \<Rightarrow> False | Some s \<Rightarrow> s \<noteq> [])"

text \<open>\<open>orStr h d\<close> is \<open>h || d\<close>.\<close>

definition orStr :: "jstring option \<Rightarrow> jstring \<Rightarrow> jstring" where
  "orStr h d = (case h of None \<Rightarrow> d | Some s \<Rightarrow> if s = [] then d else s)"

definition estimateSectionTokens :: "page_section \<Rightarrow> nat" where
  "estimateSectionTokens sec =
     (let tokens = 0;
          tokens = (if truthyStr (s_heading sec)
                    then tokens + estimateTokens (orStr (s_heading sec) []) else tokens);
          tokens = (if s_content sec \<noteq> []
                    then tokens + estimateTokens (s_content sec) else tokens)
      in tokens)"

definition buildChunkHeader :: "metadata \<Rightarrow> jstring \<Rightarrow> jstring" where
  "buildChunkHeader md url =
     join nl
       [asc ''# '' @ m_title md,
        [],
        (asc ''URL: '') @ url,
        (asc ''Category: '') @ m_category md,
        (asc ''Version: '') @ m_version md,
        (if length (m_breadcrumb md) \<noteq> 0
         then asc ''Path: '' @ join (asc '' > '') (m_breadcrumb md) else []),
        [],
        (if m_description md \<noteq> [] then asc ''Summary: '' @ m_description md else []),
        [],
        (asc ''---''),
        []]"

definition sectionLines :: "page_section \<Rightarrow> jstring list" where
  "sectionLines sec =
     (if truthyStr (s_heading sec)
      then [replicate (min (s_headingLevel sec + 1) 4) 35 @ asc '' '' @ orStr (s_heading sec) [],
            []]
      else [])
     @ (if s_content sec \<noteq> [] then [s_content sec, []] else [])"

definition buildChunkContent :: "jstring \<Rightarrow> page_section list \<Rightarrow> jstring" where
  "buildChunkContent header sections =
     str_trim (join nl (header # concat (map sectionLines sections)))"

text \<open>
  \<open>hash\<close> stands for \<open>crypto.createHash('md5').update(url).digest('hex').slice(0, 12)\<close>,
  a library function of the platform; it is a parameter of the chunk builders.
\<close>

definition buildSingleChunk ::
  "(jstring \<Rightarrow> jstring) \<Rightarrow> jstring \<Rightarrow> page_section list \<Rightarrow> jstring \<Rightarrow> metadata \<Rightarrow> nat \<Rightarrow> nat \<Rightarrow> chunk"
where
  "buildSingleChunk hash header sections url md chunkIndex chunkTotal =
     (let content = buildChunkContent header sections;
          baseId = hash url
      in \<lparr> c_id = (if chunkTotal = 1 then baseId else baseId @ asc ''-'' @ showNat chunkIndex),
           c_url = url,
           c_title = m_title md,
           c_category = m_category md,
           c_version = m_version md,
           c_content = content,
           c_tokenEstimate = estimateTokens content,
           c_chunkIndex = (if chunkTotal = 1 then None else Some chunkIndex),
           c_chunkTotal = (if chunkTotal = 1 then None else Some chunkTotal),
           c_sectionRange = None,
           c_sectionStartIndex = None,
           c_sectionEndIndex = None \<rparr>)"

text \<open>
  \<open>buildChunkFromSections\<close> reads \<open>sections[0].heading\<close>; on an empty section list that is
  a property of \<open>undefined\<close> and a \<open>TypeError\<close>. The start index is a loop counter that
  starts at 0, a \<open>nat\<close>; the end index is \<open>i - 1\<close> or \<open>sections.length - 1\<close>, an \<open>int\<close>.
\<close>

definition buildChunkFromSections ::
  "(jstring \<Rightarrow> jstring) \<Rightarrow> jstring \<Rightarrow> page_section list \<Rightarrow> jstring \<Rightarrow> metadata \<Rightarrow> nat \<Rightarrow> nat \<Rightarrow> int
     \<Rightarrow> js_error + chunk"
where
  "buildChunkFromSections hash header sections url md chunkIndex startSectionIndex endSectionIndex =
     (let content = buildChunkContent header sections;
          baseId = hash url
      in case sections of
           [] \<Rightarrow> Inl TypeError
         | first # _ \<Rightarrow>
             let sectionRange =
                   (if length sections = 1 then orStr (s_heading first) (asc ''Introduction'')
                    else orStr (s_heading first) (asc ''Introduction'') @ asc '' ... ''
                         @ orStr (s_heading (last sections)) (asc ''End''))
             in Inr \<lparr> c_id = baseId @ asc ''-'' @ showNat chunkIndex,
                      c_url = url,
                      c_title = m_title md,
                      c_category = m_category md,
                      c_version = m_version md,
                      c_content = content,
                      c_tokenEstimate = estimateTokens content,
                      c_chunkIndex = Some chunkIndex,
                      c_chunkTotal = None,
                      c_sectionRange = Some sectionRange,
                      c_sectionStartIndex = Some startSectionIndex,
                      c_sectionEndIndex = Some endSectionIndex \<rparr>)"

definition MAX_CHUNK_TOKENS :: nat where
  "MAX_CHUNK_TOKENS = 1500"

text \<open>The chunk under construction: \<open>currentChunk\<close> of \<open>createLlmChunks\<close>.\<close>

record currentChunk =
  cur_sections :: "page_section list"
  cur_tokens :: nat
  cur_startIndex :: nat

text \<open>
  The splitting loop of \<open>createLlmChunks\<close>: \<open>i\<close> is the loop index, the list is
  \<open>sections\<close> from index \<open>i\<close> on, and the state is \<open>chunks\<close> with \<open>currentChunk\<close>.
\<close>

fun chunkLoop ::
  "(jstring \<Rightarrow> jstring) \<Rightarrow> jstring \<Rightarrow> nat \<Rightarrow> jstring \<Rightarrow> metadata \<Rightarrow> nat \<Rightarrow> page_section list
     \<Rightarrow> chunk list \<times> currentChunk \<Rightarrow> js_error + chunk list \<times> currentChunk"
where
  "chunkLoop hash header headerTokens url md i [] st = Inr st"
| "chunkLoop hash header headerTokens url md i (sec # rest) (chunks, currentChunk) =
     (let sectionTokens = estimateSectionTokens sec
      in if cur_tokens currentChunk + sectionTokens > MAX_CHUNK_TOKENS
            \<and> length (cur_sections currentChunk) > 0
         then
           (let chunkIndex = length chunks
            in (case buildChunkFromSections hash header (cur_sections currentChunk) url md
                       chunkIndex (cur_startIndex currentChunk) (int i - 1) of
                  Inl e \<Rightarrow> Inl e
                | Inr c \<Rightarrow>
                    chunkLoop hash header headerTokens url md (i + 1) rest
                      (chunks @ [c],
                       \<lparr> cur_sections = [sec],
                         cur_tokens = headerTokens + sectionTokens,
                         cur_startIndex = i \<rparr>)))
         else
           chunkLoop hash header headerTokens url md (i + 1) rest
             (chunks,
              currentChunk \<lparr> cur_sections := cur_sections currentChunk @ [sec],
                             cur_tokens := cur_tokens currentChunk + sectionTokens \<rparr>))"

definition createLlmChunks ::
  "(jstring \<Rightarrow> jstring) \<Rightarrow> metadata \<Rightarrow> page_section list \<Rightarrow> jstring \<Rightarrow> js_error + chunk list"
where
  "createLlmChunks hash md sections url =
     (let header = buildChunkHeader md url;
          headerTokens = estimateTokens header;
          totalTokens = foldl (\<lambda>t sec. t + estimateSectionTokens sec) headerTokens sections
      in if totalTokens \<le> MAX_CHUNK_TOKENS
         then Inr [buildSingleChunk hash header sections url md 0 1]
         else
           (case chunkLoop hash header headerTokens url md 0 sections
                   ([], \<lparr> cur_sections = [], cur_tokens = headerTokens, cur_startIndex = 0 \<rparr>) of
              Inl e \<Rightarrow> Inl e
            | Inr (chunks, currentChunk) \<Rightarrow>
                (case (if length (cur_sections currentChunk) > 0
                       then (case buildChunkFromSections hash header (cur_sections currentChunk)
                                    url md (length chunks) (cur_startIndex currentChunk)
                                    (int (length sections) - 1) of
                               Inl e \<Rightarrow> Inl e
                             | Inr c \<Rightarrow> Inr (chunks @ [c]))
                       else Inr chunks) of
                   Inl e \<Rightarrow> Inl e
                 | Inr chunks \<Rightarrow>
                     let totalChunks = length chunks
                     in Inr (map (\<lambda>c. c \<lparr> c_chunkTotal := Some totalChunks \<rparr>) chunks))))"

text \<open>
  The section indices a chunk of a split page covers, \<open>sectionStartIndex\<close> to
  \<open>sectionEndIndex\<close> inclusive; empty for a chunk without these fields.
\<close>

definition chunkRange :: "chunk \<Rightarrow> nat list" where
  "chunkRange c =
     (case (c_sectionStartIndex c, c_sectionEndIndex c) of
        (Some s, Some e) \<Rightarrow> [s..<nat (e + 1)]
      | _ \<Rightarrow> [])"

text \<open>
  The invariant of the chunks closed so far: they are numbered from 0, and each holds the
  content built from the sections of its non-empty range.
\<close>

definition chunksOk :: "jstring \<Rightarrow> page_section list \<Rightarrow> chunk list \<Rightarrow> bool" where
  "chunksOk header sections chunks \<longleftrightarrow>
     map c_chunkIndex chunks = map Some [0..<length chunks]
     \<and> (\<forall>c \<in> set chunks.
           chunkRange c \<noteq> []
           \<and> c_content c = buildChunkContent header (map (nth sections) (chunkRange c)))"

text \<open>
  What the claims about the chunks say of the text. \<open>inOrder s ts\<close>: the texts \<open>ts\<close> occur
  in \<open>s\<close> one after the other, in this order and without overlapping. \<open>sectionTexts\<close> are
  the texts of the sections in order, for each section its heading (empty when it has
  none) and its content, without the white space at their ends.
\<close>

function inOrder :: "jstring \<Rightarrow> jstring list \<Rightarrow> bool" where
  "inOrder s [] = True"
| "inOrder [] (t # ts) = (t = [] \<and> inOrder [] ts)"
| "inOrder (c # cs) (t # ts) =
     ((startsWith (c # cs) t \<and> inOrder (drop (length t) (c # cs)) ts) \<or> inOrder cs (t # ts))"
  by pat_completeness auto
termination
  by (relation "measure (\<lambda>(s, ts). length s + length ts)") auto

definition sectionTexts :: "page_section list \<Rightarrow> jstring list" where
  "sectionTexts sections =
     concat (map (\<lambda>sec. [str_trim (orStr (s_heading sec) []), str_trim (s_content sec)]) sections)"

section \<open>The search client (class MagnoliaSearch)\<close>

text \<open>
  A record of the search index as the client reads it. Fields that the code guards with
  \<open>||\<close> or compares with \<open>!==\<close> may be missing (\<open>None\<close>); a missing \<open>headingLevel\<close> is \<open>0\<close>,
  which is as falsy as \<open>undefined\<close>.
\<close>

record doc =
  d_id :: jstring
  d_url :: jstring
  d_title :: "jstring option"
  d_heading :: "jstring option"
  d_headingLevel :: nat
  d_content :: "jstring option"
  d_fullContent :: "jstring option"
  d_category :: "jstring option"
  d_version :: "jstring option"
  d_breadcrumb :: "jstring list option"
  d_searchText :: "jstring option"

record fieldWeights =
  w_title :: rat
  w_heading :: rat
  w_content :: rat
  w_breadcrumb :: rat

record search_config =
  minQueryLength :: nat
  maxResults :: nat
  fuzzyThreshold :: rat
  fieldWeights :: fieldWeights

text \<open>
  The values \<open>this.index\<close> can hold: the empty array of the constructor, or whatever
  \<open>response.json()\<close> returned. That is \<open>null\<close>, or an array whose elements are records or
  \<open>null\<close>, or (\<open>IndexOther\<close>) a value that is neither: a number, a boolean, or an object
  such as \<open>{}\<close> that has no property named \<open>length\<close> and none named by a number. On such a
  value \<open>.length\<close> and every element are \<open>undefined\<close>.
\<close>

datatype elem = ElemNull | ElemRecord doc

datatype index_value = IndexNull | IndexArray "elem list" | IndexOther

text \<open>
  The state of a \<open>MagnoliaSearch\<close> object. \<open>e_index\<close> is \<open>this.index\<close>; \<open>e_invertedIndex\<close> is
  \<open>this.invertedIndex\<close>, \<open>None\<close> while it is \<open>undefined\<close>. The inverted index is an
  association list in the order the keys were inserted; the theorems below depend on its
  contents only, not on the order \<open>Object.keys\<close> lists them in.
\<close>

record engine =
  e_index :: index_value
  e_loaded :: bool
  e_config :: search_config
  e_invertedIndex :: "(jstring \<times> nat list) list option"

definition default_config :: search_config where
  "default_config =
     \<lparr> minQueryLength = 2,
       maxResults = 20,
       fuzzyThreshold = 4 / 10,
       fieldWeights = \<lparr> w_title = 10, w_heading = 8, w_content = 3, w_breadcrumb = 2 \<rparr> \<rparr>"

text \<open>The constructor.\<close>

definition new_engine :: engine where
  "new_engine =
     \<lparr> e_index = IndexArray [], e_loaded = False, e_config = default_config,
       e_invertedIndex = None \<rparr>"

text \<open>The characters of the class \<open>[a-z0-9]\<close>.\<close>

definition isTokenChar :: "int \<Rightarrow> bool" where
  "isTokenChar c = ((0x61 \<le> c \<and> c \<le> 0x7A) \<or> (0x30 \<le> c \<and> c \<le> 0x39))"

definition tokenize :: "jstring \<Rightarrow> jstring list" where
  "tokenize text =
     filter (\<lambda>word. length word \<ge> 2)
       (splitWs (map (\<lambda>c. if isTokenChar c \<or> isSpace c then c else 32)
                     (toLowerCase text)) [])"

text \<open>
  One step of the inner loop of \<open>_buildInvertedIndex\<close>: the word gets an empty posting
  list if it has none, and the document position is pushed unless it is there already.
\<close>

definition addPosting :: "(jstring \<times> nat list) list \<Rightarrow> jstring \<Rightarrow> nat \<Rightarrow> (jstring \<times> nat list) list" where
  "addPosting ix word docIndex =
     (if word = asc ''constructor'' \<or> word = asc ''__proto__'' \<or> word = asc ''prototype'' then ix
      else
        let ix = (if map_of ix word = None then ix @ [(word, [])] else ix)
        in map (\<lambda>(w, arr). if w = word \<and> docIndex \<notin> set arr then (w, arr @ [docIndex])
                            else (w, arr)) ix)"

text \<open>
  The outer loop of \<open>_buildInvertedIndex\<close> from position \<open>docIndex\<close> on. Reading
  \<open>doc._searchText\<close> of an element that is \<open>null\<close> throws; the result is the exception, if
  any, with the inverted index as built up to there.
\<close>

fun indexDocs ::
  "nat \<Rightarrow> elem list \<Rightarrow> (jstring \<times> nat list) list
     \<Rightarrow> js_error option \<times> (jstring \<times> nat list) list"
where
  "indexDocs docIndex [] ix = (None, ix)"
| "indexDocs docIndex (ElemNull # rest) ix = (Some TypeError, ix)"
| "indexDocs docIndex (ElemRecord d # rest) ix =
     indexDocs (docIndex + 1) rest
       (foldl (\<lambda>ix word. addPosting ix word docIndex) ix
          (tokenize (orStr (d_searchText d) [])))"

text \<open>
  \<open>_buildInvertedIndex\<close> on the value of \<open>this.index\<close>: it starts from an empty object and
  reads \<open>this.index.length\<close>, which throws on \<open>null\<close> and is \<open>undefined\<close>, so that the loop
  does not run, on a value of the third kind.
\<close>

definition buildInvertedIndex ::
  "index_value \<Rightarrow> js_error option \<times> (jstring \<times> nat list) list"
where
  "buildInvertedIndex v =
     (case v of
        IndexNull \<Rightarrow> (Some TypeError, [])
      | IndexArray es \<Rightarrow> indexDocs 0 es []
      | IndexOther \<Rightarrow> (None, []))"

text \<open>
  The Levenshtein matrix, row by row. \<open>levRow bc a prev left\<close> fills the cells
  \<open>matrix[i][j]\<close>, \<open>j \<ge> 1\<close>, of the row of the character \<open>bc = b.charAt(i - 1)\<close>: \<open>prev\<close> is
  the row above from column \<open>j - 1\<close> on, \<open>left\<close> the cell \<open>matrix[i][j - 1]\<close>.
\<close>

fun levRow :: "int \<Rightarrow> jstring \<Rightarrow> nat list \<Rightarrow> nat \<Rightarrow> nat list" where
  "levRow bc (ac # as) (diag # up # prev) left =
     (let v = (if bc = ac then diag
               else min (diag + 1) (min (left + 1) (up + 1)))
      in v # levRow bc as (up # prev) v)"
| "levRow bc _ _ left = []"

text \<open>\<open>levRows a bs i row\<close>: the rows \<open>i, i + 1, ...\<close> for the characters \<open>bs\<close>, below \<open>row\<close>.\<close>

fun levRows :: "jstring \<Rightarrow> jstring \<Rightarrow> nat \<Rightarrow> nat list \<Rightarrow> nat list" where
  "levRows a [] i row = row"
| "levRows a (bc # bs) i row = levRows a bs (i + 1) (i # levRow bc a row i)"

definition levenshtein :: "jstring \<Rightarrow> jstring \<Rightarrow> nat" where
  "levenshtein a b = last (levRows a b 1 [0..<length a + 1])"

text \<open>
  The Levenshtein distance as the textbook recurrence gives it, with unit costs for
  insertion, deletion and substitution: \<open>editDistance a b i j\<close> is the distance between
  the first \<open>i\<close> characters of \<open>a\<close> and the first \<open>j\<close> characters of \<open>b\<close>.
\<close>

fun editDistance :: "jstring \<Rightarrow> jstring \<Rightarrow> nat \<Rightarrow> nat \<Rightarrow> nat" where
  "editDistance a b 0 j = j"
| "editDistance a b (Suc i) 0 = Suc i"
| "editDistance a b (Suc i) (Suc j) =
     min (editDistance a b i (Suc j) + 1)
       (min (editDistance a b (Suc i) j + 1)
            (editDistance a b i j + (if a ! i = b ! j then 0 else 1)))"

text \<open>
  \<open>_fuzzyMatch\<close>. For two empty strings the source divides \<open>0 / 0\<close>; the similarity is
  \<open>NaN\<close> and the comparison is false.
\<close>

definition fuzzyMatch :: "search_config \<Rightarrow> jstring \<Rightarrow> jstring \<Rightarrow> bool" where
  "fuzzyMatch cfg a b =
     (if \<bar>int (length a) - int (length b)\<bar> > 2 then False
      else
        let distance = levenshtein a b;
            maxLength = max (length a) (length b)
        in if maxLength = 0 then False
           else
             let similarity = 1 - rat_of_nat distance / rat_of_nat maxLength
             in similarity \<ge> 1 - fuzzyThreshold cfg)"

text \<open>The candidate set: a JavaScript \<open>Set\<close>, kept in insertion order.\<close>

definition setAdd :: "nat list \<Rightarrow> nat \<Rightarrow> nat list" where
  "setAdd candidates idx = (if idx \<in> set candidates then candidates else candidates @ [idx])"

definition addAll :: "nat list \<Rightarrow> nat list \<Rightarrow> nat list" where
  "addAll candidates arr = foldl setAdd candidates arr"

text \<open>The body of \<open>queryTerms.forEach\<close> in \<open>_findCandidates\<close>.\<close>

definition termCandidates ::
  "search_config \<Rightarrow> (jstring \<times> nat list) list \<Rightarrow> nat list \<Rightarrow> jstring \<Rightarrow> nat list"
where
  "termCandidates cfg ix candidates term =
     (let candidates =
            (case map_of ix term of
               Some arr \<Rightarrow> addAll candidates arr
             | None \<Rightarrow> candidates);
          candidates =
            foldl (\<lambda>cands (indexedWord, arr).
                     if startsWith indexedWord term \<or> startsWith term indexedWord
                     then addAll cands arr else cands)
              candidates ix;
          candidates =
            (if length term \<ge> 4
             then foldl (\<lambda>cands (indexedWord, arr).
                           if fuzzyMatch cfg term indexedWord
                           then addAll cands arr else cands)
                    candidates ix
             else candidates)
      in candidates)"

definition findCandidates ::
  "search_config \<Rightarrow> (jstring \<times> nat list) list \<Rightarrow> jstring list \<Rightarrow> nat list"
where
  "findCandidates cfg ix queryTerms = foldl (termCandidates cfg ix) [] queryTerms"

text \<open>The contribution of one query term to the score: the body of the \<open>forEach\<close>.\<close>

definition termScore ::
  "search_config \<Rightarrow> jstring \<Rightarrow> jstring \<Rightarrow> jstring \<Rightarrow> jstring \<Rightarrow> jstring \<Rightarrow> rat"
where
  "termScore cfg title heading content breadcrumb term =
     (if str_includes title term
      then w_title (fieldWeights cfg) + (if startsWith title term then 15 else 0)
      else 0)
     + (if heading \<noteq> [] \<and> str_includes heading term then w_heading (fieldWeights cfg) else 0)
     + (if str_includes content term
        then w_content (fieldWeights cfg)
             + min (rat_of_nat (countMatches term content) * (1 / 2)) 5
        else 0)
     + (if str_includes breadcrumb term then w_breadcrumb (fieldWeights cfg) else 0)"

text \<open>The four lower-cased fields \<open>_scoreDocument\<close> reads.\<close>

definition docTitle :: "doc \<Rightarrow> jstring" where
  "docTitle d = toLowerCase (orStr (d_title d) [])"

definition docHeading :: "doc \<Rightarrow> jstring" where
  "docHeading d = toLowerCase (orStr (d_heading d) [])"

definition docContent :: "doc \<Rightarrow> jstring" where
  "docContent d = toLowerCase (orStr (d_fullContent d) (orStr (d_content d) []))"

definition docBreadcrumb :: "doc \<Rightarrow> jstring" where
  "docBreadcrumb d =
     toLowerCase (join (asc '' '') (case d_breadcrumb d of None \<Rightarrow> [] | Some bs \<Rightarrow> bs))"

definition scoreDocument :: "search_config \<Rightarrow> doc \<Rightarrow> jstring list \<Rightarrow> jstring \<Rightarrow> rat" where
  "scoreDocument cfg d queryTerms fullQuery =
     (let score = 0;
          title = docTitle d;
          heading = docHeading d;
          content = docContent d;
          breadcrumb = docBreadcrumb d;
          score = (if str_includes title fullQuery then score + 100 else score);
          score = (if str_includes heading fullQuery then score + 80 else score);
          score = foldl (\<lambda>score term. score + termScore cfg title heading content breadcrumb term)
                    score queryTerms;
          score = (if length title < 30 then score * (12 / 10) else score);
          score = (if d_headingLevel d \<noteq> 0 \<and> d_headingLevel d \<le> 2
                   then score * (11 / 10) else score)
      in score)"

record search_options =
  o_version :: "jstring option"
  o_category :: "jstring option"
  o_maxResults :: "nat option"

record scored =
  r_doc :: doc
  r_score :: rat

text \<open>\<open>options.version || null\<close>: an empty string is no filter.\<close>

definition filterOf :: "jstring option \<Rightarrow> jstring option" where
  "filterOf v = (case v of None \<Rightarrow> None | Some s \<Rightarrow> if s = [] then None else Some s)"

text \<open>
  \<open>this.index[docIndex]\<close>: indexing \<open>null\<close> throws; outside an array, and on a value of
  the third kind, the element is \<open>undefined\<close>, and reading a property of \<open>undefined\<close> or of
  a \<open>null\<close> element throws as well.
\<close>

definition docAt :: "index_value \<Rightarrow> nat \<Rightarrow> js_error + doc" where
  "docAt v docIndex =
     (case v of
        IndexNull \<Rightarrow> Inl TypeError
      | IndexArray es \<Rightarrow>
          if docIndex \<ge> length es then Inl TypeError
          else (case es ! docIndex of ElemNull \<Rightarrow> Inl TypeError | ElemRecord d \<Rightarrow> Inr d)
      | IndexOther \<Rightarrow> Inl TypeError)"

text \<open>\<open>candidates.map(...).filter(Boolean)\<close> of \<open>search\<close>.\<close>

fun scoreCandidates ::
  "engine \<Rightarrow> jstring option \<Rightarrow> jstring option \<Rightarrow> jstring list \<Rightarrow> jstring \<Rightarrow> nat list
     \<Rightarrow> js_error + scored list"
where
  "scoreCandidates st fv fc queryTerms query [] = Inr []"
| "scoreCandidates st fv fc queryTerms query (docIndex # rest) =
     (case docAt (e_index st) docIndex of
        Inl e \<Rightarrow> Inl e
      | Inr d \<Rightarrow>
          (case scoreCandidates st fv fc queryTerms query rest of
             Inl e \<Rightarrow> Inl e
           | Inr others \<Rightarrow>
               if fv \<noteq> None \<and> d_version d \<noteq> fv then Inr others
               else if fc \<noteq> None \<and> d_category d \<noteq> fc then Inr others
               else Inr (\<lparr> r_doc = d,
                           r_score = scoreDocument (e_config st) d queryTerms query \<rparr>
                         # others)))"

text \<open>
  \<open>search\<close>. The sort is the stable sort of the platform, descending by score; the result
  pairs each record with its \<open>_score\<close>.
\<close>

definition search :: "engine \<Rightarrow> jstring option \<Rightarrow> search_options \<Rightarrow> js_error + scored list" where
  "search st query options =
     (if \<not> e_loaded st then Inr []
      else
        let query = toLowerCase (str_trim (orStr query []))
        in if length query < minQueryLength (e_config st) then Inr []
           else
             let fv = filterOf (o_version options);
                 fc = filterOf (o_category options);
                 maxResults = (case o_maxResults options of
                                 None \<Rightarrow> maxResults (e_config st)
                               | Some n \<Rightarrow> if n = 0 then maxResults (e_config st) else n);
                 queryTerms = tokenize query
             in if length queryTerms = 0 then Inr []
                else
                  (case e_invertedIndex st of
                     None \<Rightarrow> Inl TypeError
                   | Some ix \<Rightarrow>
                       let candidates = findCandidates (e_config st) ix queryTerms
                       in (case scoreCandidates st fv fc queryTerms query candidates of
                             Inl e \<Rightarrow> Inl e
                           | Inr results \<Rightarrow>
                               Inr (take maxResults (sort_key (\<lambda>r. - r_score r) results)))))"

text \<open>Every position in the inverted index is the position of a record in the index value.\<close>

definition postingsIn :: "index_value \<Rightarrow> (jstring \<times> nat list) list \<Rightarrow> bool" where
  "postingsIn v ix \<longleftrightarrow>
     (\<forall>w arr i. (w, arr) \<in> set ix \<longrightarrow> i \<in> set arr \<longrightarrow> (\<exists>d. docAt v i = Inr d))"

text \<open>
  What \<open>fetch\<close> and \<open>response.json()\<close> give \<open>load\<close>: the fetch is rejected, or there is a
  response with its \<open>ok\<close> flag and a body, which is not JSON or parses to a value.
\<close>

datatype body = BodyInvalid | BodyJson index_value

datatype fetch_outcome = FetchRejected | FetchResponse bool body

text \<open>
  \<open>load\<close> returns the outcome of the promise with the state it leaves. The first three
  failures come before any assignment. After them \<open>this.index\<close> and \<open>this.loaded\<close> are
  assigned, and then \<open>_buildInvertedIndex\<close> replaces \<open>this.invertedIndex\<close>; when that throws,
  the \<open>catch\<close> block logs and throws again, undoing nothing. The \<open>onReady\<close> callback is the
  default one, which does nothing.
\<close>

definition load :: "engine \<Rightarrow> fetch_outcome \<Rightarrow> (js_error + unit) \<times> engine" where
  "load st outcome =
     (if e_loaded st then (Inr (), st)
      else
        (case outcome of
           FetchRejected \<Rightarrow> (Inl FetchFailed, st)
         | FetchResponse ok b \<Rightarrow>
             if \<not> ok then (Inl LoadFailed, st)
             else
               (case b of
                  BodyInvalid \<Rightarrow> (Inl SyntaxError, st)
                | BodyJson v \<Rightarrow>
                    let st = st \<lparr> e_index := v, e_loaded := True \<rparr>;
                        (thrown, ix) = buildInvertedIndex v;
                        st = st \<lparr> e_invertedIndex := Some ix \<rparr>
                    in (case thrown of
                          Some e \<Rightarrow> (Inl e, st)
                        | None \<Rightarrow> (Inr (), st)))))"

section \<open>The context assembler (class MagnoliaAI)\<close>

record relevant =
  rel_chunk :: chunk
  rel_score :: rat

record context_result =
  ctx_context :: jstring
  ctx_tokenEstimate :: nat
  ctx_sources :: "(jstring \<times> jstring) list"

record ai_config =
  maxContextChunks :: nat
  maxContextTokens :: nat
  minRelevanceScore :: rat

text \<open>The configuration the constructor sets.\<close>

definition default_ai_config :: ai_config where
  "default_ai_config =
     \<lparr> maxContextChunks = 5, maxContextTokens = 8000, minRelevanceScore = 3 / 10 \<rparr>"

text \<open>The separator \<open>\n\n---\n\n\<close> that precedes every chunk put into the context.\<close>

definition separator :: jstring where
  "separator = nl @ nl @ asc ''---'' @ nl @ nl"

text \<open>
  The \<open>for\<close> loop of \<open>buildContext\<close>, on \<open>context\<close> and \<open>totalTokens\<close>, with \<open>limit\<close> for
  \<open>this.config.maxContextTokens\<close>; it ends at the \<open>break\<close>.
\<close>

fun contextLoop :: "nat \<Rightarrow> chunk list \<Rightarrow> jstring \<times> nat \<Rightarrow> jstring \<times> nat" where
  "contextLoop limit [] acc = acc"
| "contextLoop limit (c # cs) (context, totalTokens) =
     (if totalTokens + c_tokenEstimate c > limit then (context, totalTokens)
      else contextLoop limit cs
             (context @ separator @ c_content c, totalTokens + c_tokenEstimate c))"

definition buildContext :: "ai_config \<Rightarrow> relevant list \<Rightarrow> context_result" where
  "buildContext cfg relevantChunks =
     (let chunks = map rel_chunk relevantChunks;
          (context, totalTokens) = contextLoop (maxContextTokens cfg) chunks ([], 0)
      in \<lparr> ctx_context = str_trim context,
           ctx_tokenEstimate = totalTokens,
           ctx_sources = map (\<lambda>c. (c_title c, c_url c)) chunks \<rparr>)"

section \<open>Example data\<close>

text \<open>
  The page of the specification's example scenario, "Installing Magnolia CLI" with the
  section "Prerequisites", and a record of the 6.2 documentation; \<open>loaded_engine\<close> is a
  search client that has loaded the two.
\<close>

definition doc_cli :: doc where
  "doc_cli =
     \<lparr> d_id = asc ''0a1b2c3d4e5f'',
       d_url = asc ''/magnolia-cli/install/#prerequisites'',
       d_title = Some (asc ''Installing Magnolia CLI''),
       d_heading = Some (asc ''Prerequisites''),
       d_headingLevel = 2,
       d_content = Some (asc ''You need Java 17 and Maven installed.''),
       d_fullContent = Some (asc ''You need Java 17 and Maven installed.''),
       d_category = Some (asc ''CLI''),
       d_version = Some (asc ''general''),
       d_breadcrumb = Some [asc ''Docs'', asc ''CLI''],
       d_searchText =
         Some (asc ''installing magnolia cli prerequisites you need java 17 and maven installed.'') \<rparr>"

definition doc_62 :: doc where
  "doc_62 =
     \<lparr> d_id = asc ''6f5e4d3c2b1a'',
       d_url = asc ''/product-docs/6.2/java/#versions'',
       d_title = Some (asc ''Java requirements''),
       d_heading = Some (asc ''Versions''),
       d_headingLevel = 2,
       d_content = Some (asc ''Magnolia 6.2 runs on Java 11.''),
       d_fullContent = Some (asc ''Magnolia 6.2 runs on Java 11.''),
       d_category = Some (asc ''Magnolia 6.2''),
       d_version = Some (asc ''6.2''),
       d_breadcrumb = Some [asc ''Docs'', asc ''6.2''],
       d_searchText = Some (asc ''java requirements versions magnolia 6.2 runs on java 11.'') \<rparr>"

definition loaded_engine :: engine where
  "loaded_engine =
     snd (load new_engine
            (FetchResponse True (BodyJson (IndexArray [ElemRecord doc_cli, ElemRecord doc_62]))))"

definition no_options :: search_options where
  "no_options = \<lparr> o_version = None, o_category = None, o_maxResults = None \<rparr>"

text \<open>
  A page for the chunker: the metadata and URL of the example page, its "Prerequisites"
  section, and a section of 24 code blocks, each rendered as \<open>[Code]\<close> and the code.
  \<open>example_hash\<close> stands in for the digest where a concrete function is needed.
\<close>

definition page_md :: metadata where
  "page_md =
     \<lparr> m_title = asc ''Installing Magnolia CLI'',
       m_category = asc ''CLI'',
       m_version = asc ''general'',
       m_breadcrumb = [asc ''Docs'', asc ''CLI''],
       m_description = asc ''How to install the CLI.'' \<rparr>"

definition page_url :: jstring where
  "page_url = asc ''https://docs.magnolia-cms.com/magnolia-cli/install/''"

definition sec_prereq :: page_section where
  "sec_prereq =
     \<lparr> s_heading = Some (asc ''Prerequisites''),
       s_headingLevel = 2,
       s_anchor = asc ''prerequisites'',
       s_content = asc ''You need Java 17 and Maven installed.'',
       s_contentPreview = asc ''You need Java 17 and Maven installed.'' \<rparr>"

definition sec_scripts :: page_section where
  "sec_scripts =
     \<lparr> s_heading = Some (asc ''Build scripts''),
       s_headingLevel = 2,
       s_anchor = asc ''build-scripts'',
       s_content = join (asc '' '') (replicate 24 (asc ''[Code] npm run build'')),
       s_contentPreview =
         take 150 (join (asc '' '') (replicate 24 (asc ''[Code] npm run build''))) @ asc ''...'' \<rparr>"

definition example_hash :: "jstring \<Rightarrow> jstring" where
  "example_hash u = take 12 u"

text \<open>Two chunks that do not fit into one context together, as ranked retrieval results.\<close>

definition chunk_install :: chunk where
  "chunk_install =
     \<lparr> c_id = asc ''0a1b2c3d4e5f-0'',
       c_url = asc ''/magnolia-cli/install/'',
       c_title = asc ''Installing Magnolia CLI'',
       c_category = asc ''CLI'',
       c_version = asc ''general'',
       c_content = asc ''# Installing Magnolia CLI'',
       c_tokenEstimate = 5000,
       c_chunkIndex = Some 0,
       c_chunkTotal = Some 2,
       c_sectionRange = Some (asc ''Prerequisites''),
       c_sectionStartIndex = Some 0,
       c_sectionEndIndex = Some 0 \<rparr>"

definition chunk_java :: chunk where
  "chunk_java =
     \<lparr> c_id = asc ''6f5e4d3c2b1a'',
       c_url = asc ''/product-docs/6.2/java/'',
       c_title = asc ''Java requirements'',
       c_category = asc ''Magnolia 6.2'',
       c_version = asc ''6.2'',
       c_content = asc ''# Java requirements'',
       c_tokenEstimate = 4000,
       c_chunkIndex = None,
       c_chunkTotal = None,
       c_sectionRange = None,
       c_sectionStartIndex = None,
       c_sectionEndIndex = None \<rparr>"

definition ranked_chunks :: "relevant list" where
  "ranked_chunks =
     [\<lparr> rel_chunk = chunk_install, rel_score = 70 \<rparr>,
      \<lparr> rel_chunk = chunk_java, rel_score = 40 \<rparr>]"





section \<open>Token estimate\<close>

lemma ceil_tenth: "nat \<lceil>rat_of_nat n * (1 / 10)\<rceil> = (n + 9) div 10"
  by linarith

lemma ceil_13_10: "nat \<lceil>rat_of_nat n * (13 / 10)\<rceil> = (13 * n + 9) div 10"
  by linarith

lemma ceil_whole:
  "nat \<lceil>rat_of_nat n * 50\<rceil> = 50 * n" "nat \<lceil>rat_of_nat n * 20\<rceil> = 20 * n"
  by linarith+

lemma estimateTokens_empty: "estimateTokens [] = 0"
  by (simp add: estimateTokens_def)

text \<open>
  White space is the class \<open>\s\<close> of the platform: a no-break space, which cheerio gives for
  \<open>&nbsp;\<close>, separates words as a space does.
\<close>

lemma estimateTokens_nbsp:
  "estimateTokens (asc ''a'' @ [0xA0] @ asc ''b'') = 3
   \<and> estimateTokens (asc ''a'' @ [0xA0] @ asc ''b'') = estimateTokens (asc ''a b'')"
  by code_simp

text \<open>The estimate in integer arithmetic.\<close>

lemma estimateTokens_div:
  "estimateTokens text =
     (13 * (length (filter (\<lambda>w. length w > 0) (splitWs text []))
            + (length (filter isMarkdownChar text) + 9) div 10
            + 50 * countMatches (asc ''[Code]'') text
            + 20 * countMatches (asc ''[Table]'') text) + 9) div 10"
proof (cases "text = []")
  case True
  then show ?thesis by (simp add: estimateTokens_def asc_def)
next
  case False
  then show ?thesis
    by (simp only: estimateTokens_def Let_def ceil_whole ceil_tenth ceil_13_10 if_False)
qed

text \<open>
  C8, as stated, does not hold: the specification's formula adds 10% of the markdown
  characters as a fraction and rounds once, at the end, while \<open>estimateTokens\<close> rounds the
  10% up with a \<open>Math.ceil\<close> of its own before adding it. On the heading \<open>C#\<close> (one word,
  one markdown character) the formula gives \<open>\<lceil>1.1 * 1.3\<rceil> = 2\<close> and the code
  \<open>\<lceil>(1 + 1) * 1.3\<rceil> = 3\<close>.
\<close>

theorem estimateTokens_spec_counterexample:
  "estimateTokens (asc ''C#'') \<noteq> estimateTokens_spec (asc ''C#'')"
proof -
  have "estimateTokens (asc ''C#'') = 3" by code_simp
  moreover have "estimateTokens_spec (asc ''C#'') = 2" by code_simp
  ultimately show ?thesis by simp
qed

text \<open>
  C8, amended: for every text, \<open>estimateTokens\<close> is the number of white-space-separated
  words, plus 10% of the number of markdown special characters rounded up to a whole
  number, plus 50 per \<open>[Code]\<close> marker, plus 20 per \<open>[Table]\<close> marker, the sum scaled by
  1.3 and rounded up; the empty text, for which the code returns early, gets 0, which is
  also what the formula gives.
\<close>

theorem estimateTokens_rounds_markdown_first:
  "estimateTokens text =
     nat \<lceil>rat_of_nat
            (length (filter (\<lambda>w. length w > 0) (splitWs text []))
             + nat \<lceil>rat_of_nat (length (filter isMarkdownChar text)) * (1 / 10)\<rceil>
             + 50 * countMatches (asc ''[Code]'') text
             + 20 * countMatches (asc ''[Table]'') text) * (13 / 10)\<rceil>
   \<and> estimateTokens [] = 0"
proof (cases "text = []")
  case True
  then show ?thesis by (simp add: estimateTokens_def asc_def)
next
  case False
  then show ?thesis
    by (simp only: estimateTokens_def Let_def ceil_whole if_False simp_thms if_True)
qed

section \<open>Chunking\<close>

lemma foldl_add_sum: "foldl (\<lambda>t x. t + f x) (a::nat) xs = a + sum_list (map f xs)"
  by (induction xs arbitrary: a) (simp_all add: add.assoc)

lemma drop_as_nth: "s \<le> length pre \<Longrightarrow> map (nth (pre @ rest)) [s..<length pre] = drop s pre"
  by (rule map_upt_eqI) (auto simp: nth_append)

lemma upt_glue: "s \<le> n \<Longrightarrow> [0..<s] @ [s..<n] = [0..<n]"
  using upt_add_eq_append [of 0 s "n - s"] by simp

text \<open>
  The text of a chunk holds the texts of its sections, in their order: \<open>buildChunkContent\<close>
  puts the lines of the sections one after the other behind the header, and \<open>trim\<close> only
  removes white space at the two ends.
\<close>

lemma startsWith_iff: "startsWith s t \<longleftrightarrow> (\<exists>b. s = t @ b)"
  unfolding startsWith_def
  by (metis append_eq_conv_conj append_take_drop_id)

lemma inOrder_Cons:
  "inOrder s (t # ts) \<longleftrightarrow> (\<exists>a b. s = a @ t @ b \<and> inOrder b ts)"
proof (induction s)
  case Nil
  show ?case by auto
next
  case (Cons c cs)
  show ?case
  proof
    assume "inOrder (c # cs) (t # ts)"
    then consider "startsWith (c # cs) t" "inOrder (drop (length t) (c # cs)) ts"
      | "inOrder cs (t # ts)"
      by auto
    then show "\<exists>a b. c # cs = a @ t @ b \<and> inOrder b ts"
    proof cases
      case 1
      from 1(1) have "c # cs = [] @ t @ drop (length t) (c # cs)"
        by (auto simp: startsWith_iff)
      with 1(2) show ?thesis by blast
    next
      case 2
      with Cons.IH obtain a b where "cs = a @ t @ b" "inOrder b ts" by blast
      then have "c # cs = (c # a) @ t @ b" by simp
      with \<open>inOrder b ts\<close> show ?thesis by blast
    qed
  next
    assume "\<exists>a b. c # cs = a @ t @ b \<and> inOrder b ts"
    then obtain a b where e: "c # cs = a @ t @ b" and b: "inOrder b ts" by blast
    show "inOrder (c # cs) (t # ts)"
    proof (cases a)
      case Nil
      with e have "startsWith (c # cs) t" "drop (length t) (c # cs) = b"
        by (auto simp: startsWith_iff)
      with b show ?thesis by simp
    next
      case (Cons x a')
      with e have "cs = a' @ t @ b" by simp
      with b Cons.IH have "inOrder cs (t # ts)" by blast
      then show ?thesis by simp
    qed
  qed
qed

lemma inOrder_prepend: "inOrder s ts \<Longrightarrow> inOrder (p @ s) ts"
proof (cases ts)
  case Nil
  then show ?thesis by simp
next
  case (Cons t ts')
  assume "inOrder s ts"
  with Cons obtain a b where "s = a @ t @ b" "inOrder b ts'"
    by (auto simp: inOrder_Cons)
  then have "p @ s = (p @ a) @ t @ b \<and> inOrder b ts'" by simp
  then show ?thesis unfolding Cons inOrder_Cons by blast
qed

lemma inOrder_Nil_any: "inOrder [] ts \<Longrightarrow> inOrder s ts"
proof (induction ts arbitrary: s)
  case Nil
  show ?case by simp
next
  case (Cons t ts)
  from Cons.prems have "t = []" "inOrder [] ts" by simp_all
  with Cons.IH [of s] have "s = [] @ t @ s \<and> inOrder s ts" by simp
  then show ?case unfolding inOrder_Cons by blast
qed

lemma inOrder_dropWhile:
  assumes "inOrder s ts" and "\<forall>t \<in> set ts. t \<noteq> [] \<longrightarrow> \<not> P (hd t)"
  shows "inOrder (dropWhile P s) ts"
  using assms
proof (induction ts arbitrary: s)
  case Nil
  show ?case by simp
next
  case (Cons t ts)
  from Cons.prems(1) obtain a b where s: "s = a @ t @ b" and b: "inOrder b ts"
    by (auto simp: inOrder_Cons)
  show ?case
  proof (cases "\<forall>x \<in> set a. P x")
    case False
    then have "dropWhile P s = dropWhile P a @ t @ b"
      by (auto simp: s dropWhile_append)
    with b show ?thesis unfolding inOrder_Cons by blast
  next
    case True
    then have d: "dropWhile P s = dropWhile P (t @ b)"
      by (simp add: s dropWhile_append)
    show ?thesis
    proof (cases "t = []")
      case True
      with d have "dropWhile P s = [] @ t @ dropWhile P b" by simp
      moreover have "inOrder (dropWhile P b) ts"
        using b Cons.prems(2) by (intro Cons.IH) simp_all
      ultimately show ?thesis unfolding inOrder_Cons by blast
    next
      case False
      with Cons.prems(2) have "\<not> P (hd t)" by simp
      with False have "dropWhile P (t @ b) = [] @ t @ b"
        by (cases t) simp_all
      with d b show ?thesis unfolding inOrder_Cons by metis
    qed
  qed
qed

lemma inOrder_dropWhile_rev:
  assumes "inOrder s ts" and "\<forall>t \<in> set ts. t \<noteq> [] \<longrightarrow> \<not> P (last t)"
  shows "inOrder (rev (dropWhile P (rev s))) ts"
  using assms
proof (induction ts arbitrary: s)
  case Nil
  show ?case by simp
next
  case (Cons t ts)
  from Cons.prems(1) obtain a b where s: "s = a @ t @ b" and b: "inOrder b ts"
    by (auto simp: inOrder_Cons)
  have IH: "inOrder (rev (dropWhile P (rev b))) ts"
    using b Cons.prems(2) by (intro Cons.IH) simp_all
  show ?case
  proof (cases "\<forall>x \<in> set b. P x")
    case False
    then have "rev (dropWhile P (rev s)) = a @ t @ rev (dropWhile P (rev b))"
      by (auto simp: s dropWhile_append)
    with IH show ?thesis unfolding inOrder_Cons by blast
  next
    case True
    then have "dropWhile P (rev b) = []" by simp
    with IH have e: "inOrder [] ts" by simp
    from True have d: "rev (dropWhile P (rev s)) = rev (dropWhile P (rev (a @ t)))"
      by (simp add: s dropWhile_append)
    show ?thesis
    proof (cases "t = []")
      case True
      with d have "rev (dropWhile P (rev s)) = rev (dropWhile P (rev a)) @ t @ []" by simp
      with e show ?thesis unfolding inOrder_Cons by blast
    next
      case False
      with Cons.prems(2) have "\<not> P (last t)" by simp
      with False have "dropWhile P (rev t @ rev a) = rev t @ rev a"
        by (cases t rule: rev_cases) simp_all
      with d have "rev (dropWhile P (rev s)) = a @ t @ []" by simp
      with e show ?thesis unfolding inOrder_Cons by blast
    qed
  qed
qed

lemma str_trim_ends:
  "str_trim t \<noteq> [] \<Longrightarrow> \<not> isSpace (hd (str_trim t)) \<and> \<not> isSpace (last (str_trim t))"
proof -
  let ?u = "dropWhile isSpace t"
  let ?v = "dropWhile isSpace (rev ?u)"
  assume "str_trim t \<noteq> []"
  then have v: "?v \<noteq> []" by (simp add: str_trim_def)
  then have u: "?u \<noteq> []" by (metis dropWhile.simps(1) rev.simps(1))
  from v have "\<not> isSpace (hd ?v)" by (rule hd_dropWhile)
  then have l: "\<not> isSpace (last (str_trim t))"
    using v by (simp add: str_trim_def last_rev)
  have "last ?v = last (rev ?u)"
    using v by (metis last_appendR takeWhile_dropWhile_id)
  also have "\<dots> = hd ?u" using u by (simp add: last_rev)
  finally have "\<not> isSpace (last ?v)" using u by (simp add: hd_dropWhile)
  then have "\<not> isSpace (hd (str_trim t))"
    using v by (simp add: str_trim_def hd_rev)
  with l show ?thesis by simp
qed

lemma str_trim_sub: "\<exists>x y. t = x @ str_trim t @ y"
proof -
  let ?u = "dropWhile isSpace t"
  have "t = takeWhile isSpace t @ ?u" by simp
  moreover have "?u = rev (dropWhile isSpace (rev ?u)) @ rev (takeWhile isSpace (rev ?u))"
    by (metis rev_append rev_rev_ident takeWhile_dropWhile_id)
  ultimately have "t = takeWhile isSpace t @ str_trim t @ rev (takeWhile isSpace (rev ?u))"
    by (simp add: str_trim_def)
  then show ?thesis by blast
qed

lemma join_Cons: "join sep (x # xs) = x @ concat (map ((@) sep) xs)"
  by (induction xs arbitrary: x) simp_all

lemma sectionLines_texts:
  "\<exists>a1 a2 a3. concat (map ((@) nl) (sectionLines sec))
      = a1 @ str_trim (orStr (s_heading sec) []) @ a2 @ str_trim (s_content sec) @ a3"
proof -
  obtain hx hy where h: "orStr (s_heading sec) [] = hx @ str_trim (orStr (s_heading sec) []) @ hy"
    using str_trim_sub by blast
  obtain cx cy where c: "s_content sec = cx @ str_trim (s_content sec) @ cy"
    using str_trim_sub by blast
  let ?th = "str_trim (orStr (s_heading sec) [])"
  let ?tc = "str_trim (s_content sec)"
  let ?p = "replicate (min (s_headingLevel sec + 1) 4) 35 @ asc '' ''"
  have e: "\<not> truthyStr (s_heading sec) \<Longrightarrow> ?th = []"
    by (auto simp: truthyStr_def orStr_def str_trim_def split: option.splits)
  have f: "s_content sec = [] \<Longrightarrow> ?tc = []" by (simp add: str_trim_def)
  consider (both) "truthyStr (s_heading sec)" "s_content sec \<noteq> []"
    | (heading) "truthyStr (s_heading sec)" "s_content sec = []"
    | (content) "\<not> truthyStr (s_heading sec)" "s_content sec \<noteq> []"
    | (neither) "\<not> truthyStr (s_heading sec)" "s_content sec = []"
    by blast
  then show ?thesis
  proof cases
    case both
    then have "concat (map ((@) nl) (sectionLines sec))
                 = nl @ ?p @ orStr (s_heading sec) [] @ nl @ nl @ s_content sec @ nl"
      by (simp add: sectionLines_def)
    also have "\<dots> = (nl @ ?p @ hx) @ ?th @ (hy @ nl @ nl @ cx) @ ?tc @ (cy @ nl)"
      by (subst h, subst c) simp
    finally show ?thesis by blast
  next
    case heading
    then have "concat (map ((@) nl) (sectionLines sec)) = nl @ ?p @ orStr (s_heading sec) [] @ nl"
      by (simp add: sectionLines_def)
    also have "\<dots> = (nl @ ?p @ hx) @ ?th @ (hy @ nl) @ ?tc @ []"
      using f [OF heading(2)] by (subst h) simp
    finally show ?thesis by blast
  next
    case content
    then have "concat (map ((@) nl) (sectionLines sec)) = nl @ s_content sec @ nl"
      by (simp add: sectionLines_def)
    also have "\<dots> = [] @ ?th @ (nl @ cx) @ ?tc @ (cy @ nl)"
      using e [OF content(1)] by (subst c) simp
    finally show ?thesis by blast
  next
    case neither
    then have "concat (map ((@) nl) (sectionLines sec)) = [] @ ?th @ [] @ ?tc @ []"
      using e f by (simp add: sectionLines_def)
    then show ?thesis by blast
  qed
qed

lemma sectionLines_inOrder:
  "inOrder (concat (map ((@) nl) (concat (map sectionLines secs)))) (sectionTexts secs)"
proof (induction secs)
  case Nil
  show ?case by (simp add: sectionTexts_def)
next
  case (Cons sec secs)
  let ?R = "concat (map ((@) nl) (concat (map sectionLines secs)))"
  obtain a1 a2 a3 where b: "concat (map ((@) nl) (sectionLines sec))
      = a1 @ str_trim (orStr (s_heading sec) []) @ a2 @ str_trim (s_content sec) @ a3"
    using sectionLines_texts by blast
  have "inOrder (a3 @ ?R) (sectionTexts secs)"
    using Cons.IH by (rule inOrder_prepend)
  then have "inOrder (a2 @ str_trim (s_content sec) @ a3 @ ?R)
               (str_trim (s_content sec) # sectionTexts secs)"
    unfolding inOrder_Cons by blast
  then have "inOrder (a1 @ str_trim (orStr (s_heading sec) []) @ a2 @ str_trim (s_content sec) @ a3 @ ?R)
               (str_trim (orStr (s_heading sec) []) # str_trim (s_content sec) # sectionTexts secs)"
    unfolding inOrder_Cons [of _ "str_trim (orStr (s_heading sec) [])"] by blast
  moreover have "concat (map ((@) nl) (concat (map sectionLines (sec # secs))))
                   = a1 @ str_trim (orStr (s_heading sec) []) @ a2 @ str_trim (s_content sec) @ a3 @ ?R"
    by (simp add: b)
  ultimately show ?case by (simp add: sectionTexts_def)
qed

lemma sectionTexts_trimmed:
  "t \<in> set (sectionTexts secs) \<Longrightarrow> t \<noteq> [] \<Longrightarrow> \<not> isSpace (hd t) \<and> \<not> isSpace (last t)"
  by (auto simp: sectionTexts_def str_trim_ends)

lemma buildChunkContent_inOrder:
  "inOrder (buildChunkContent header secs) (sectionTexts secs)"
proof -
  let ?J = "join nl (header # concat (map sectionLines secs))"
  have "inOrder ?J (sectionTexts secs)"
    unfolding join_Cons by (rule inOrder_prepend) (rule sectionLines_inOrder)
  then have "inOrder (dropWhile isSpace ?J) (sectionTexts secs)"
    by (rule inOrder_dropWhile) (simp add: sectionTexts_trimmed)
  then have "inOrder (rev (dropWhile isSpace (rev (dropWhile isSpace ?J)))) (sectionTexts secs)"
    by (rule inOrder_dropWhile_rev) (simp add: sectionTexts_trimmed)
  then show ?thesis by (simp add: buildChunkContent_def str_trim_def)
qed

lemma buildChunkFromSections_ok:
  assumes "secs \<noteq> []"
  shows "\<exists>c. buildChunkFromSections hash header secs url md k s e = Inr c
             \<and> c_content c = buildChunkContent header secs
             \<and> c_chunkIndex c = Some k
             \<and> c_sectionStartIndex c = Some s \<and> c_sectionEndIndex c = Some e"
  using assms by (cases secs) (simp_all add: buildChunkFromSections_def Let_def)

text \<open>
  The invariant of the splitting loop. Before section \<open>i\<close> is looked at, with \<open>pre\<close> the
  sections before it: the ranges of the closed chunks are \<open>0\<close> up to the start of the
  current chunk, and the current chunk holds the sections from its start to \<open>i - 1\<close>.
\<close>

lemma chunkLoop_invariant:
  assumes "sections = pre @ rest"
      and "cur_startIndex cur + length (cur_sections cur) = length pre"
      and "cur_sections cur = drop (cur_startIndex cur) pre"
      and "concat (map chunkRange chunks) = [0..<cur_startIndex cur]"
      and "chunksOk header sections chunks"
  shows "\<exists>chunks' cur'.
           chunkLoop hash header headerTokens url md (length pre) rest (chunks, cur)
             = Inr (chunks', cur')
           \<and> cur_startIndex cur' + length (cur_sections cur') = length sections
           \<and> cur_sections cur' = drop (cur_startIndex cur') sections
           \<and> concat (map chunkRange chunks') = [0..<cur_startIndex cur']
           \<and> chunksOk header sections chunks'"
  using assms
proof (induction rest arbitrary: pre chunks cur)
  case Nil
  then show ?case by simp
next
  case (Cons sec rest)
  let ?pre = "pre @ [sec]"
  have secs: "sections = ?pre @ rest" using Cons.prems(1) by simp
  show ?case
  proof (cases "cur_tokens cur + estimateSectionTokens sec > MAX_CHUNK_TOKENS
                \<and> length (cur_sections cur) > 0")
    case True
    then have ne: "cur_sections cur \<noteq> []" by auto
    from buildChunkFromSections_ok [OF ne, of hash header url md "length chunks"
           "cur_startIndex cur" "int (length pre) - 1"]
    obtain c where
        b: "buildChunkFromSections hash header (cur_sections cur) url md (length chunks)
              (cur_startIndex cur) (int (length pre) - 1) = Inr c"
      and cc: "c_content c = buildChunkContent header (cur_sections cur)"
      and ci: "c_chunkIndex c = Some (length chunks)"
      and cs: "c_sectionStartIndex c = Some (cur_startIndex cur)"
      and ce: "c_sectionEndIndex c = Some (int (length pre) - 1)"
      by blast
    have r: "chunkRange c = [cur_startIndex cur..<length pre]"
      by (simp add: chunkRange_def cs ce)
    have lt: "cur_startIndex cur < length pre"
      using Cons.prems(2) ne by (cases "cur_sections cur") auto
    have content: "c_content c = buildChunkContent header (map (nth sections) (chunkRange c))"
      using lt by (simp add: cc r Cons.prems(1,3) drop_as_nth)
    let ?cur = "\<lparr> cur_sections = [sec],
                   cur_tokens = headerTokens + estimateSectionTokens sec,
                   cur_startIndex = length pre \<rparr>"
    have ok: "chunksOk header sections (chunks @ [c])"
      using Cons.prems(5) content r lt ci by (auto simp: chunksOk_def)
    have rng: "concat (map chunkRange (chunks @ [c])) = [0..<cur_startIndex ?cur]"
      using Cons.prems(4) r lt by (simp add: upt_glue)
    have "\<exists>chunks' cur'.
           chunkLoop hash header headerTokens url md (length ?pre) rest (chunks @ [c], ?cur)
             = Inr (chunks', cur')
           \<and> cur_startIndex cur' + length (cur_sections cur') = length sections
           \<and> cur_sections cur' = drop (cur_startIndex cur') sections
           \<and> concat (map chunkRange chunks') = [0..<cur_startIndex cur']
           \<and> chunksOk header sections chunks'"
      by (rule Cons.IH [OF secs _ _ rng ok]) simp_all
    then show ?thesis
      using True b by (simp add: Let_def)
  next
    case False
    let ?cur = "cur \<lparr> cur_sections := cur_sections cur @ [sec],
                       cur_tokens := cur_tokens cur + estimateSectionTokens sec \<rparr>"
    have le: "cur_startIndex cur \<le> length pre" using Cons.prems(2) by simp
    have rng: "concat (map chunkRange chunks) = [0..<cur_startIndex ?cur]"
      using Cons.prems(4) by simp
    have "\<exists>chunks' cur'.
           chunkLoop hash header headerTokens url md (length ?pre) rest (chunks, ?cur)
             = Inr (chunks', cur')
           \<and> cur_startIndex cur' + length (cur_sections cur') = length sections
           \<and> cur_sections cur' = drop (cur_startIndex cur') sections
           \<and> concat (map chunkRange chunks') = [0..<cur_startIndex cur']
           \<and> chunksOk header sections chunks'"
      using Cons.prems(2,3) le
      by (intro Cons.IH [OF secs _ _ rng Cons.prems(5)]) simp_all
    then show ?thesis
      using False by (auto simp: Let_def)
  qed
qed

lemma createLlmChunks_small:
  assumes "estimateTokens (buildChunkHeader md url)
             + sum_list (map estimateSectionTokens sections) \<le> MAX_CHUNK_TOKENS"
  shows "\<exists>c. createLlmChunks hash md sections url = Inr [c]
             \<and> c_content c = buildChunkContent (buildChunkHeader md url) sections
             \<and> c_chunkIndex c = None \<and> c_chunkTotal c = None
             \<and> c_sectionStartIndex c = None \<and> c_sectionEndIndex c = None"
  using assms by (simp add: createLlmChunks_def Let_def foldl_add_sum buildSingleChunk_def)

lemma chunkRange_chunkTotal [simp]: "chunkRange (c \<lparr> c_chunkTotal := t \<rparr>) = chunkRange c"
  by (simp add: chunkRange_def)

lemma createLlmChunks_split:
  assumes "\<not> estimateTokens (buildChunkHeader md url)
             + sum_list (map estimateSectionTokens sections) \<le> MAX_CHUNK_TOKENS"
  shows "\<exists>chunks. createLlmChunks hash md sections url = Inr chunks
             \<and> concat (map chunkRange chunks) = [0..<length sections]
             \<and> chunksOk (buildChunkHeader md url) sections chunks
             \<and> (\<forall>c \<in> set chunks. c_chunkTotal c = Some (length chunks))"
proof -
  let ?header = "buildChunkHeader md url"
  let ?cur0 = "\<lparr> cur_sections = [], cur_tokens = estimateTokens ?header, cur_startIndex = 0 \<rparr>"
  have "\<exists>chunks' cur'.
           chunkLoop hash ?header (estimateTokens ?header) url md (length ([]::page_section list))
             sections ([], ?cur0) = Inr (chunks', cur')
           \<and> cur_startIndex cur' + length (cur_sections cur') = length sections
           \<and> cur_sections cur' = drop (cur_startIndex cur') sections
           \<and> concat (map chunkRange chunks') = [0..<cur_startIndex cur']
           \<and> chunksOk ?header sections chunks'"
    by (rule chunkLoop_invariant) (simp_all add: chunksOk_def)
  then obtain chunks' cur' where
      loop: "chunkLoop hash ?header (estimateTokens ?header) url md 0 sections ([], ?cur0)
               = Inr (chunks', cur')"
    and len: "cur_startIndex cur' + length (cur_sections cur') = length sections"
    and cur: "cur_sections cur' = drop (cur_startIndex cur') sections"
    and rng: "concat (map chunkRange chunks') = [0..<cur_startIndex cur']"
    and ok: "chunksOk ?header sections chunks'"
    by auto
  define final where
    "final = (if length (cur_sections cur') > 0
              then (case buildChunkFromSections hash ?header (cur_sections cur') url md
                           (length chunks') (cur_startIndex cur') (int (length sections) - 1) of
                      Inl e \<Rightarrow> Inl e
                    | Inr c \<Rightarrow> Inr (chunks' @ [c]))
              else Inr chunks')"
  have "\<exists>chunks. final = Inr chunks
          \<and> concat (map chunkRange chunks) = [0..<length sections]
          \<and> chunksOk ?header sections chunks"
  proof (cases "cur_sections cur' = []")
    case True
    with len rng ok show ?thesis by (simp add: final_def)
  next
    case False
    from buildChunkFromSections_ok [OF False, of hash ?header url md "length chunks'"
           "cur_startIndex cur'" "int (length sections) - 1"]
    obtain c where
        b: "buildChunkFromSections hash ?header (cur_sections cur') url md (length chunks')
              (cur_startIndex cur') (int (length sections) - 1) = Inr c"
      and cc: "c_content c = buildChunkContent ?header (cur_sections cur')"
      and ci: "c_chunkIndex c = Some (length chunks')"
      and cs: "c_sectionStartIndex c = Some (cur_startIndex cur')"
      and ce: "c_sectionEndIndex c = Some (int (length sections) - 1)"
      by blast
    have r: "chunkRange c = [cur_startIndex cur'..<length sections]"
      by (simp add: chunkRange_def cs ce)
    have lt: "cur_startIndex cur' < length sections"
      using len False by (cases "cur_sections cur'") auto
    have "map (nth sections) [cur_startIndex cur'..<length sections]
            = drop (cur_startIndex cur') sections"
      using drop_as_nth [of "cur_startIndex cur'" sections "[]"] lt by simp
    then have content:
      "c_content c = buildChunkContent ?header (map (nth sections) (chunkRange c))"
      by (simp add: cc r cur)
    have "chunksOk ?header sections (chunks' @ [c])"
      using ok content r lt ci by (auto simp: chunksOk_def)
    moreover have "concat (map chunkRange (chunks' @ [c])) = [0..<length sections]"
      using rng r lt by (simp add: upt_glue)
    ultimately show ?thesis
      using False b by (simp add: final_def)
  qed
  then obtain chunks where
      f: "final = Inr chunks"
    and rng': "concat (map chunkRange chunks) = [0..<length sections]"
    and ok': "chunksOk ?header sections chunks"
    by blast
  let ?out = "map (\<lambda>c. c \<lparr> c_chunkTotal := Some (length chunks) \<rparr>) chunks"
  have res: "createLlmChunks hash md sections url = Inr ?out"
    using assms loop f
    by (simp add: createLlmChunks_def Let_def foldl_add_sum final_def)
  have "concat (map chunkRange ?out) = [0..<length sections]"
    using rng' by (simp add: comp_def)
  moreover have "chunksOk ?header sections ?out"
    using ok' by (simp add: chunksOk_def comp_def)
  moreover have "\<forall>c \<in> set ?out. c_chunkTotal c = Some (length ?out)"
    by simp
  ultimately show ?thesis
    using res by blast
qed

text \<open>
  C1, as stated, does not hold for a page within the budget: its one chunk is built by
  \<open>buildSingleChunk\<close> and has no \<open>sectionStartIndex\<close> and no \<open>sectionEndIndex\<close>, so there are
  no ranges to partition \<open>0..n-1\<close>. The example page with its section "Prerequisites" is
  such a page.
\<close>

theorem createLlmChunks_single_chunk_without_range:
  "createLlmChunks example_hash page_md [sec_prereq] page_url
     = Inr [buildSingleChunk example_hash (buildChunkHeader page_md page_url) [sec_prereq]
              page_url page_md 0 1]
   \<and> c_sectionStartIndex
         (buildSingleChunk example_hash (buildChunkHeader page_md page_url) [sec_prereq]
            page_url page_md 0 1) = None
   \<and> c_sectionEndIndex
         (buildSingleChunk example_hash (buildChunkHeader page_md page_url) [sec_prereq]
            page_url page_md 0 1) = None
   \<and> concat (map chunkRange
         [buildSingleChunk example_hash (buildChunkHeader page_md page_url) [sec_prereq]
            page_url page_md 0 1]) \<noteq> [0..<length [sec_prereq]]"
proof -
  have "estimateTokens (buildChunkHeader page_md page_url)
          + sum_list (map estimateSectionTokens [sec_prereq]) \<le> MAX_CHUNK_TOKENS"
    by code_simp
  then have e: "createLlmChunks example_hash page_md [sec_prereq] page_url
     = Inr [buildSingleChunk example_hash (buildChunkHeader page_md page_url) [sec_prereq]
              page_url page_md 0 1]"
    by (simp add: createLlmChunks_def Let_def foldl_add_sum)
  have a: "c_sectionStartIndex
         (buildSingleChunk example_hash (buildChunkHeader page_md page_url) [sec_prereq]
            page_url page_md 0 1) = None"
    by (simp add: buildSingleChunk_def Let_def)
  have b: "c_sectionEndIndex
         (buildSingleChunk example_hash (buildChunkHeader page_md page_url) [sec_prereq]
            page_url page_md 0 1) = None"
    by (simp add: buildSingleChunk_def Let_def)
  have c: "concat (map chunkRange
         [buildSingleChunk example_hash (buildChunkHeader page_md page_url) [sec_prereq]
            page_url page_md 0 1]) \<noteq> [0..<length [sec_prereq]]"
    using a b by (simp add: chunkRange_def)
  from e a b c show ?thesis by blast
qed

text \<open>
  C1, amended: \<open>createLlmChunks\<close> never throws, and its chunks hold every section of the
  page exactly once, in order. A page within the budget gives one chunk, without
  \<open>chunkIndex\<close> and without section indices, whose content is built from all the sections
  and holds their texts in order. A page over the budget gives chunks numbered
  \<open>0, 1, ...\<close> in list order whose ranges \<open>sectionStartIndex..sectionEndIndex\<close>, put one
  after the other, are exactly \<open>0, ..., n - 1\<close>: no gap, no overlap, no duplicate; every
  range is non-empty, and the content of a chunk is built from the sections of its range
  and holds their texts in order.
\<close>

theorem createLlmChunks_partition:
  "\<exists>chunks. createLlmChunks hash md sections url = Inr chunks \<and>
     (if estimateTokens (buildChunkHeader md url)
           + sum_list (map estimateSectionTokens sections) \<le> MAX_CHUNK_TOKENS
      then \<exists>c. chunks = [c]
             \<and> c_chunkIndex c = None
             \<and> c_sectionStartIndex c = None \<and> c_sectionEndIndex c = None
             \<and> c_content c = buildChunkContent (buildChunkHeader md url) sections
             \<and> inOrder (c_content c) (sectionTexts sections)
      else map c_chunkIndex chunks = map Some [0..<length chunks]
           \<and> concat (map chunkRange chunks) = [0..<length sections]
           \<and> (\<forall>c \<in> set chunks.
                 chunkRange c \<noteq> []
                 \<and> c_content c
                     = buildChunkContent (buildChunkHeader md url)
                         (map (nth sections) (chunkRange c))
                 \<and> inOrder (c_content c)
                     (sectionTexts (map (nth sections) (chunkRange c)))))"
proof (cases "estimateTokens (buildChunkHeader md url)
                + sum_list (map estimateSectionTokens sections) \<le> MAX_CHUNK_TOKENS")
  case True
  from createLlmChunks_small [OF True, of hash] obtain c where
      "createLlmChunks hash md sections url = Inr [c]"
      "c_content c = buildChunkContent (buildChunkHeader md url) sections"
      "c_chunkIndex c = None" "c_sectionStartIndex c = None" "c_sectionEndIndex c = None"
    by blast
  moreover from this(2) have "inOrder (c_content c) (sectionTexts sections)"
    by (simp add: buildChunkContent_inOrder)
  ultimately show ?thesis
    using True by simp
next
  case False
  from createLlmChunks_split [OF False, of hash] obtain chunks where
      r: "createLlmChunks hash md sections url = Inr chunks"
         "concat (map chunkRange chunks) = [0..<length sections]"
         "chunksOk (buildChunkHeader md url) sections chunks"
    by blast
  have "inOrder (c_content c) (sectionTexts (map (nth sections) (chunkRange c)))"
    if "c \<in> set chunks" for c
    using that r(3) by (simp add: chunksOk_def buildChunkContent_inOrder)
  with r show ?thesis
    using False by (simp add: chunksOk_def)
qed

lemma estimateTokens_code_lower: "65 * countMatches (asc ''[Code]'') text \<le> estimateTokens text"
proof -
  let ?c = "countMatches (asc ''[Code]'') text"
  have "(650 * ?c) div 10 \<le> estimateTokens text"
    by (subst estimateTokens_div, rule div_le_mono) simp
  then show ?thesis by simp
qed

lemma estimateSectionTokens_content_lower:
  "estimateTokens (s_content sec) \<le> estimateSectionTokens sec"
  by (simp add: estimateSectionTokens_def Let_def estimateTokens_def)

lemma sec_scripts_markers: "countMatches (asc ''[Code]'') (s_content sec_scripts) = 24"
  by code_simp

lemma sec_scripts_oversized: "estimateSectionTokens sec_scripts > MAX_CHUNK_TOKENS"
  using estimateTokens_code_lower [of "s_content sec_scripts"]
        estimateSectionTokens_content_lower [of sec_scripts]
  by (simp add: sec_scripts_markers MAX_CHUNK_TOKENS_def)

lemma sec_prereq_small:
  "estimateTokens (buildChunkHeader page_md page_url)
     + sum_list (map estimateSectionTokens [sec_prereq]) \<le> MAX_CHUNK_TOKENS"
  by code_simp

lemma sec_prereq_texts:
  "sectionTexts [sec_prereq]
     = [asc ''Prerequisites'', asc ''You need Java 17 and Maven installed.'']"
  by code_simp

theorem createLlmChunks_partition_witness:
  "estimateTokens (buildChunkHeader page_md page_url)
       + sum_list (map estimateSectionTokens [sec_prereq]) \<le> MAX_CHUNK_TOKENS
   \<and> (\<exists>c. createLlmChunks example_hash page_md [sec_prereq] page_url = Inr [c]
         \<and> c_sectionStartIndex c = None
         \<and> inOrder (c_content c)
              [asc ''Prerequisites'', asc ''You need Java 17 and Maven installed.''])
   \<and> \<not> estimateTokens (buildChunkHeader page_md page_url)
       + sum_list (map estimateSectionTokens [sec_prereq, sec_scripts]) \<le> MAX_CHUNK_TOKENS
   \<and> (\<exists>chunks. createLlmChunks example_hash page_md [sec_prereq, sec_scripts] page_url = Inr chunks
         \<and> concat (map chunkRange chunks) = [0, 1]
         \<and> (\<forall>c \<in> set chunks.
               chunkRange c \<noteq> []
               \<and> inOrder (c_content c)
                   (sectionTexts (map (nth [sec_prereq, sec_scripts]) (chunkRange c)))))"
proof -
  have over: "\<not> estimateTokens (buildChunkHeader page_md page_url)
       + sum_list (map estimateSectionTokens [sec_prereq, sec_scripts]) \<le> MAX_CHUNK_TOKENS"
    using sec_scripts_oversized by simp
  have u: "[0..<length [sec_prereq, sec_scripts]] = [0, 1]" by (simp add: upt_conv_Cons)
  have small: "\<exists>c. createLlmChunks example_hash page_md [sec_prereq] page_url = Inr [c]
         \<and> c_sectionStartIndex c = None
         \<and> inOrder (c_content c)
              [asc ''Prerequisites'', asc ''You need Java 17 and Maven installed.'']"
    using createLlmChunks_partition [of example_hash page_md "[sec_prereq]" page_url]
          sec_prereq_small
    by (simp only: if_True sec_prereq_texts) blast
  have split: "\<exists>chunks. createLlmChunks example_hash page_md [sec_prereq, sec_scripts] page_url
                  = Inr chunks
         \<and> concat (map chunkRange chunks) = [0, 1]
         \<and> (\<forall>c \<in> set chunks.
               chunkRange c \<noteq> []
               \<and> inOrder (c_content c)
                   (sectionTexts (map (nth [sec_prereq, sec_scripts]) (chunkRange c))))"
    using createLlmChunks_partition [of example_hash page_md "[sec_prereq, sec_scripts]" page_url]
          over u
    by (simp only: if_False) blast
  from sec_prereq_small small over split show ?thesis by blast
qed

lemma showNat_0: "showNat 0 = asc ''0''"
  by (simp add: showNat.simps asc_def)

lemma createLlmChunks_one_oversized:
  assumes "estimateTokens (buildChunkHeader md url) + estimateSectionTokens sec > MAX_CHUNK_TOKENS"
  shows "\<exists>c. createLlmChunks hash md [sec] url = Inr [c]
             \<and> c_id c = hash url @ asc ''-0''
             \<and> c_chunkIndex c = Some 0 \<and> c_chunkTotal c = Some 1"
  using assms
  by (simp add: createLlmChunks_def Let_def buildChunkFromSections_def showNat_0 asc_def)

text \<open>
  A page over the budget with two or more sections is split into two or more chunks: as
  long as no chunk has been closed, the current chunk holds all the sections seen and fits
  the budget, so the loop cannot reach the end of such a page without closing one.
\<close>

lemma chunkLoop_closes_a_chunk:
  assumes "chunkLoop hash header ht url md i rest (chunks, cur) = Inr (chunks', cur')"
      and "cur_tokens cur = ht + sum_list (map estimateSectionTokens (cur_sections cur))"
      and "chunks = [] \<longrightarrow> cur_sections cur = pre"
      and "chunks = [] \<longrightarrow> length pre \<ge> 2 \<longrightarrow>
             ht + sum_list (map estimateSectionTokens pre) \<le> MAX_CHUNK_TOKENS"
      and "pre \<noteq> [] \<longrightarrow> cur_sections cur \<noteq> []"
  shows "(chunks' = [] \<longrightarrow> length (pre @ rest) \<ge> 2 \<longrightarrow>
            ht + sum_list (map estimateSectionTokens (pre @ rest)) \<le> MAX_CHUNK_TOKENS)
         \<and> (pre @ rest \<noteq> [] \<longrightarrow> cur_sections cur' \<noteq> [])"
  using assms
proof (induction rest arbitrary: i pre chunks cur)
  case Nil
  then show ?case by simp
next
  case (Cons sec rest)
  show ?case
  proof (cases "cur_tokens cur + estimateSectionTokens sec > MAX_CHUNK_TOKENS
                \<and> length (cur_sections cur) > 0")
    case True
    then obtain c where
      b: "buildChunkFromSections hash header (cur_sections cur) url md (length chunks)
            (cur_startIndex cur) (int i - 1) = Inr c"
      using Cons.prems(1) by (auto simp: Let_def split: sum.splits)
    let ?cur = "\<lparr> cur_sections = [sec],
                   cur_tokens = ht + estimateSectionTokens sec,
                   cur_startIndex = i \<rparr>"
    have loop: "chunkLoop hash header ht url md (i + 1) rest (chunks @ [c], ?cur)
                  = Inr (chunks', cur')"
      using Cons.prems(1) True b by (simp add: Let_def)
    have "(chunks' = [] \<longrightarrow> length ((pre @ [sec]) @ rest) \<ge> 2 \<longrightarrow>
             ht + sum_list (map estimateSectionTokens ((pre @ [sec]) @ rest)) \<le> MAX_CHUNK_TOKENS)
          \<and> ((pre @ [sec]) @ rest \<noteq> [] \<longrightarrow> cur_sections cur' \<noteq> [])"
      by (rule Cons.IH [OF loop]) simp_all
    then show ?thesis by simp
  next
    case False
    let ?cur = "cur \<lparr> cur_sections := cur_sections cur @ [sec],
                       cur_tokens := cur_tokens cur + estimateSectionTokens sec \<rparr>"
    have loop: "chunkLoop hash header ht url md (i + 1) rest (chunks, ?cur) = Inr (chunks', cur')"
      using Cons.prems(1) False by (auto simp: Let_def)
    have fits: "chunks = [] \<longrightarrow> length (pre @ [sec]) \<ge> 2 \<longrightarrow>
                  ht + sum_list (map estimateSectionTokens (pre @ [sec])) \<le> MAX_CHUNK_TOKENS"
    proof (intro impI)
      assume e: "chunks = []" and l: "length (pre @ [sec]) \<ge> 2"
      then have "pre \<noteq> []" by auto
      with Cons.prems(5) have "cur_sections cur \<noteq> []" by simp
      with False have "cur_tokens cur + estimateSectionTokens sec \<le> MAX_CHUNK_TOKENS" by auto
      with Cons.prems(2,3) e
      show "ht + sum_list (map estimateSectionTokens (pre @ [sec])) \<le> MAX_CHUNK_TOKENS"
        by simp
    qed
    have "(chunks' = [] \<longrightarrow> length ((pre @ [sec]) @ rest) \<ge> 2 \<longrightarrow>
             ht + sum_list (map estimateSectionTokens ((pre @ [sec]) @ rest)) \<le> MAX_CHUNK_TOKENS)
          \<and> ((pre @ [sec]) @ rest \<noteq> [] \<longrightarrow> cur_sections cur' \<noteq> [])"
      using Cons.prems(2,3) fits
      by (intro Cons.IH [OF loop]) simp_all
    then show ?thesis by simp
  qed
qed

lemma createLlmChunks_two_sections_split:
  assumes "\<not> estimateTokens (buildChunkHeader md url)
             + sum_list (map estimateSectionTokens sections) \<le> MAX_CHUNK_TOKENS"
      and "length sections \<ge> 2"
  shows "\<exists>chunks. createLlmChunks hash md sections url = Inr chunks \<and> length chunks \<ge> 2"
proof -
  let ?header = "buildChunkHeader md url"
  let ?cur0 = "\<lparr> cur_sections = [], cur_tokens = estimateTokens ?header, cur_startIndex = 0 \<rparr>"
  obtain chunks where res: "createLlmChunks hash md sections url = Inr chunks"
    using createLlmChunks_split [OF assms(1), of hash] by blast
  then obtain chunks' cur' where
      loop: "chunkLoop hash ?header (estimateTokens ?header) url md 0 sections ([], ?cur0)
               = Inr (chunks', cur')"
    using assms(1)
    by (auto simp: createLlmChunks_def Let_def foldl_add_sum split: sum.splits)
  have "(chunks' = [] \<longrightarrow> length ([] @ sections) \<ge> 2 \<longrightarrow>
           estimateTokens ?header + sum_list (map estimateSectionTokens ([] @ sections))
             \<le> MAX_CHUNK_TOKENS)
        \<and> ([] @ sections \<noteq> [] \<longrightarrow> cur_sections cur' \<noteq> [])"
    by (rule chunkLoop_closes_a_chunk [OF loop]) simp_all
  with assms have ne: "chunks' \<noteq> []" and cur: "cur_sections cur' \<noteq> []"
    by auto
  from buildChunkFromSections_ok [OF cur, of hash ?header url md "length chunks'"
         "cur_startIndex cur'" "int (length sections) - 1"]
  obtain c where
    b: "buildChunkFromSections hash ?header (cur_sections cur') url md (length chunks')
          (cur_startIndex cur') (int (length sections) - 1) = Inr c"
    by blast
  have "chunks = map (\<lambda>x. x \<lparr> c_chunkTotal := Some (length (chunks' @ [c])) \<rparr>) (chunks' @ [c])"
    using res assms(1) loop cur b
    by (simp add: createLlmChunks_def Let_def foldl_add_sum)
  then have "length chunks = Suc (length chunks')" by simp
  with ne res show ?thesis by (cases chunks') auto
qed

text \<open>
  C2: the first half holds (\<open>createLlmChunks_small\<close>: a page within the budget gives one
  chunk without \<open>chunkIndex\<close> and \<open>chunkTotal\<close>), and a page over the budget with two or
  more sections gets two or more chunks (\<open>createLlmChunks_two_sections_split\<close>). The
  converse fails on a page whose only section is over the budget: it takes the splitting
  path, which closes a single chunk and stamps it. The page is not split, \<open>pagesSplit\<close>
  does not count it, and yet its chunk carries \<open>chunkIndex = 0\<close>, \<open>chunkTotal = 1\<close> and the
  id suffix \<open>-0\<close>, which \<open>buildSingleChunk\<close> leaves out whenever the total is 1.
\<close>

theorem createLlmChunks_single_oversized_section:
  "\<exists>c. createLlmChunks hash page_md [sec_scripts] page_url = Inr [c]
       \<and> c_id c = hash page_url @ asc ''-0''
       \<and> c_chunkIndex c = Some 0 \<and> c_chunkTotal c = Some 1"
proof (rule createLlmChunks_one_oversized)
  show "estimateTokens (buildChunkHeader page_md page_url) + estimateSectionTokens sec_scripts
          > MAX_CHUNK_TOKENS"
    using sec_scripts_oversized by simp
qed

section \<open>Levenshtein distance and fuzzy candidates\<close>

text \<open>
  The matrix that \<open>_levenshtein\<close> fills holds the textbook distances. The source takes the
  diagonal cell alone when the two characters are equal; that is the minimum of the three
  neighbours because neighbouring cells differ by at most one.
\<close>

lemma editDistance_col0 [simp]: "editDistance a b i 0 = i"
  by (cases i) simp_all

lemma editDistance_right: "editDistance a b i (Suc j) \<le> editDistance a b i j + 1"
  by (cases i) simp_all

lemma editDistance_down: "editDistance a b (Suc i) j \<le> editDistance a b i j + 1"
  by (cases j) simp_all

lemma editDistance_up: "editDistance a b i j \<le> editDistance a b (Suc i) j + 1"
proof (induction j arbitrary: i)
  case 0
  show ?case by simp
next
  case (Suc j)
  have "editDistance a b i (Suc j) \<le> editDistance a b i j + 1"
    by (rule editDistance_right)
  moreover have "editDistance a b i j \<le> editDistance a b (Suc i) j + 1"
    by (rule Suc.IH)
  ultimately show ?case by (simp add: min_def)
qed

lemma editDistance_left: "editDistance a b i j \<le> editDistance a b i (Suc j) + 1"
proof (induction i arbitrary: j)
  case 0
  show ?case by simp
next
  case (Suc i)
  have "editDistance a b (Suc i) j \<le> editDistance a b i j + 1"
    by (rule editDistance_down)
  moreover have "editDistance a b i j \<le> editDistance a b i (Suc j) + 1"
    by (rule Suc.IH)
  ultimately show ?case by (simp add: min_def)
qed

lemma editDistance_cell:
  "editDistance b a (Suc i) (Suc j) =
     (if b ! i = a ! j then editDistance b a i j
      else min (editDistance b a i j + 1)
             (min (editDistance b a (Suc i) j + 1) (editDistance b a i (Suc j) + 1)))"
  using editDistance_up [of b a i j] editDistance_left [of b a i j]
  by (simp add: min_def)

lemma levRow_editDistance:
  assumes "j \<le> length a"
  shows "levRow (b ! i) (drop j a) (map (editDistance b a i) [j..<Suc (length a)])
           (editDistance b a (Suc i) j)
         = map (editDistance b a (Suc i)) [Suc j..<Suc (length a)]"
  using assms
proof (induction "length a - j" arbitrary: j)
  case 0
  then have "j = length a" by simp
  then show ?case by simp
next
  case (Suc k)
  then have lt: "j < length a" by simp
  then have d: "drop j a = a ! j # drop (Suc j) a"
    by (simp add: Cons_nth_drop_Suc)
  from lt have u: "[j..<Suc (length a)] = j # Suc j # [Suc (Suc j)..<Suc (length a)]"
    by (simp add: upt_conv_Cons)
  from lt have u': "[Suc j..<Suc (length a)] = Suc j # [Suc (Suc j)..<Suc (length a)]"
    by (simp add: upt_conv_Cons)
  have ih: "levRow (b ! i) (drop (Suc j) a) (map (editDistance b a i) [Suc j..<Suc (length a)])
              (editDistance b a (Suc i) (Suc j))
            = map (editDistance b a (Suc i)) [Suc (Suc j)..<Suc (length a)]"
    using Suc.hyps(1) [of "Suc j"] Suc.hyps(2) lt by simp
  show ?case
    using ih by (simp add: d u u' editDistance_cell Let_def del: upt_Suc editDistance.simps)
qed

lemma levRows_editDistance:
  assumes "i \<le> length b"
  shows "levRows a (drop i b) (Suc i) (map (editDistance b a i) [0..<Suc (length a)])
         = map (editDistance b a (length b)) [0..<Suc (length a)]"
  using assms
proof (induction "length b - i" arbitrary: i)
  case 0
  then have "i = length b" by simp
  then show ?case by simp
next
  case (Suc k)
  then have lt: "i < length b" by simp
  then have d: "drop i b = b ! i # drop (Suc i) b"
    by (simp add: Cons_nth_drop_Suc)
  have row: "Suc i # levRow (b ! i) a (map (editDistance b a i) [0..<Suc (length a)]) (Suc i)
             = map (editDistance b a (Suc i)) [0..<Suc (length a)]"
    using levRow_editDistance [of 0 a b i]
    by (simp add: upt_conv_Cons del: upt_Suc editDistance.simps)
  have "levRows a (drop (Suc i) b) (Suc (Suc i)) (map (editDistance b a (Suc i)) [0..<Suc (length a)])
        = map (editDistance b a (length b)) [0..<Suc (length a)]"
    using Suc.hyps(1) [of "Suc i"] Suc.hyps(2) lt by simp
  then show ?case
    by (simp add: d row del: upt_Suc editDistance.simps)
qed

lemma editDistance_sym: "editDistance a b i j = editDistance b a j i"
proof (induction a b i j rule: editDistance.induct)
  case (1 a b j)
  show ?case by simp
next
  case (2 a b i)
  show ?case by simp
next
  case (3 a b i j)
  then show ?case by (simp add: min.commute min.left_commute eq_commute)
qed

lemma levenshtein_editDistance:
  "levenshtein a b = editDistance a b (length a) (length b)"
proof -
  have "[0..<Suc (length a)] = map (editDistance b a 0) [0..<Suc (length a)]"
    by (simp add: map_idI del: upt_Suc)
  then have "levRows a b 1 [0..<length a + 1]
             = map (editDistance b a (length b)) [0..<Suc (length a)]"
    using levRows_editDistance [of 0 b a] by simp
  then have "levenshtein a b = editDistance b a (length b) (length a)"
    by (simp add: levenshtein_def last_map del: editDistance.simps)
  then show ?thesis by (simp add: editDistance_sym)
qed

lemma set_addAll: "set (addAll cands arr) = set cands \<union> set arr"
  unfolding addAll_def
  by (induction arr arbitrary: cands) (auto simp: setAdd_def)

lemma set_foldl_addAll:
  "set (foldl (\<lambda>cands (w, arr). if P w then addAll cands arr else cands) cands ix)
     = set cands \<union> {idx. \<exists>(w, arr) \<in> set ix. P w \<and> idx \<in> set arr}"
proof (induction ix arbitrary: cands)
  case Nil
  then show ?case by simp
next
  case (Cons p ix)
  obtain w arr where p: "p = (w, arr)" by (cases p)
  show ?case
    by (auto simp: p Cons.IH set_addAll)
qed

lemma set_termCandidates:
  "set (termCandidates cfg ix cands q) =
     set cands
     \<union> (case map_of ix q of Some arr \<Rightarrow> set arr | None \<Rightarrow> {})
     \<union> {idx. \<exists>(w, arr) \<in> set ix. (startsWith w q \<or> startsWith q w) \<and> idx \<in> set arr}
     \<union> {idx. length q \<ge> 4 \<and> (\<exists>(w, arr) \<in> set ix. fuzzyMatch cfg q w \<and> idx \<in> set arr)}"
  unfolding termCandidates_def Let_def
  by (cases "map_of ix q"; cases "length q \<ge> 4")
     (simp_all add: set_foldl_addAll set_addAll Un_assoc)

lemma fuzzyMatch_iff:
  assumes "fuzzyThreshold cfg = 4 / 10" and "length q \<ge> 4"
  shows "fuzzyMatch cfg q w \<longleftrightarrow>
           \<bar>int (length q) - int (length w)\<bar> \<le> 2
           \<and> rat_of_nat (levenshtein q w) / rat_of_nat (max (length q) (length w)) \<le> 4 / 10"
proof -
  from assms(2) have "max (length q) (length w) \<noteq> 0" by auto
  then show ?thesis
    unfolding fuzzyMatch_def Let_def assms(1) by auto
qed

lemma javaa_distance: "levenshtein (asc ''javaa'') (asc ''java'') = 1"
  by code_simp

text \<open>
  C3: in the candidate expansion of one query token \<open>q\<close>, the candidates are those found
  by the exact hit, by the prefix rule, and, only when \<open>q\<close> has at least 4 characters, by
  the fuzzy rule. For such a token, an indexed term \<open>w\<close> fuzzy-matches \<open>q\<close> exactly when
  their lengths differ by at most 2 and the Levenshtein distance divided by the greater
  length is at most 0.4. The token \<open>javaa\<close> matches the term \<open>java\<close>: distance 1, greater
  length 5, similarity 0.8. The threshold is the 0.4 of the configuration the constructor
  sets.
\<close>

theorem fuzzy_candidate_expansion:
  assumes "fuzzyThreshold cfg = 4 / 10"
  shows "set (termCandidates cfg ix cands q) =
           set cands
           \<union> (case map_of ix q of Some arr \<Rightarrow> set arr | None \<Rightarrow> {})
           \<union> {idx. \<exists>(w, arr) \<in> set ix. (startsWith w q \<or> startsWith q w) \<and> idx \<in> set arr}
           \<union> {idx. length q \<ge> 4 \<and> (\<exists>(w, arr) \<in> set ix. fuzzyMatch cfg q w \<and> idx \<in> set arr)}
       \<and> (length q \<ge> 4 \<longrightarrow>
            (fuzzyMatch cfg q w \<longleftrightarrow>
               \<bar>int (length q) - int (length w)\<bar> \<le> 2
               \<and> rat_of_nat (editDistance q w (length q) (length w))
                   / rat_of_nat (max (length q) (length w)) \<le> 4 / 10))
       \<and> fuzzyMatch cfg (asc ''javaa'') (asc ''java'')
       \<and> editDistance (asc ''javaa'') (asc ''java'') (length (asc ''javaa'')) (length (asc ''java'')) = 1
       \<and> max (length (asc ''javaa'')) (length (asc ''java'')) = 5
       \<and> 1 - rat_of_nat (levenshtein (asc ''javaa'') (asc ''java''))
               / rat_of_nat (max (length (asc ''javaa'')) (length (asc ''java''))) = 8 / 10"
proof -
  have d: "editDistance (asc ''javaa'') (asc ''java'') (length (asc ''javaa'')) (length (asc ''java'')) = 1"
    using javaa_distance by (simp only: levenshtein_editDistance)
  have m: "fuzzyMatch cfg (asc ''javaa'') (asc ''java'')"
    using fuzzyMatch_iff [OF assms, of "(asc ''javaa'')" "(asc ''java'')"] javaa_distance
    by (simp add: asc_def)
  have s: "1 - rat_of_nat (levenshtein (asc ''javaa'') (asc ''java''))
               / rat_of_nat (max (length (asc ''javaa'')) (length (asc ''java''))) = 8 / 10"
    by (simp add: javaa_distance) (simp add: asc_def)
  have l: "max (length (asc ''javaa'')) (length (asc ''java'')) = 5"
    by (simp add: asc_def)
  show ?thesis
    using set_termCandidates [of cfg ix cands q] fuzzyMatch_iff [OF assms, of q w] d m s l
    by (simp only: levenshtein_editDistance) simp
qed

theorem fuzzy_candidate_expansion_witness:
  "fuzzyThreshold default_config = 4 / 10
   \<and> length (asc ''javaa'') \<ge> 4
   \<and> fuzzyMatch default_config (asc ''javaa'') (asc ''java'')
   \<and> \<not> fuzzyMatch default_config (asc ''javaa'') (asc ''maven'')
   \<and> set (termCandidates default_config [((asc ''java''), [0, 1]), ((asc ''maven''), [2])] [] (asc ''javaa'')) = {0, 1}
   \<and> set (termCandidates default_config [((asc ''java''), [0, 1]), ((asc ''maven''), [2])] [] (asc ''jav'')) = {0, 1}"
proof -
  have t: "fuzzyThreshold default_config = 4 / 10" by (simp add: default_config_def)
  have n: "\<not> fuzzyMatch default_config (asc ''javaa'') (asc ''maven'')" by code_simp
  show ?thesis
    using fuzzy_candidate_expansion [OF t, of "[((asc ''java''), [0, 1]), ((asc ''maven''), [2])]" "[]" "(asc ''javaa'')" "(asc ''java'')"]
          fuzzy_candidate_expansion [OF t, of "[((asc ''java''), [0, 1]), ((asc ''maven''), [2])]" "[]" "(asc ''jav'')" "(asc ''java'')"]
          t n
    by (auto simp: startsWith_def asc_def)
qed

section \<open>Scoring\<close>




text \<open>
  The second case needs a negative field weight: with the weights of the constructor, and
  with any weights that are not negative, the score before the boosts is not negative.
\<close>

lemma termScore_nonneg:
  assumes "0 \<le> w_title (fieldWeights cfg)" and "0 \<le> w_heading (fieldWeights cfg)"
      and "0 \<le> w_content (fieldWeights cfg)" and "0 \<le> w_breadcrumb (fieldWeights cfg)"
  shows "0 \<le> termScore cfg title heading content breadcrumb term"
  using assms by (simp add: termScore_def add_nonneg_nonneg)

lemma preboost_nonneg:
  assumes "0 \<le> w_title (fieldWeights cfg)" and "0 \<le> w_heading (fieldWeights cfg)"
      and "0 \<le> w_content (fieldWeights cfg)" and "0 \<le> w_breadcrumb (fieldWeights cfg)"
  shows "0 \<le> (if str_includes heading fullQuery then 80 else 0)
              + sum_list (map (termScore cfg title heading content breadcrumb) queryTerms)"
proof -
  have "0 \<le> sum_list (map (termScore cfg title heading content breadcrumb) queryTerms)"
    by (intro sum_list_nonneg) (auto simp: termScore_nonneg [OF assms])
  then show ?thesis by simp
qed







section \<open>Search: degraded queries, filters, loading\<close>

text \<open>
  Lower-casing can lengthen a string of one code unit, U+0130, to two; the result has no
  token.
\<close>

lemma tokenize_dotted_i: "tokenize [0x69, 0x307] = []"
  by code_simp

lemma toLowerCase_short:
  assumes "length s < 2"
  shows "length (toLowerCase s) < 2 \<or> tokenize (toLowerCase s) = []"
proof (cases s)
  case Nil
  then show ?thesis by (simp add: toLowerCase_def)
next
  case (Cons c cs)
  with assms have s: "s = [c]" by simp
  show ?thesis
  proof (cases "c = 0x130")
    case True
    then show ?thesis by (simp add: s toLowerCase_def lowerUnit_def tokenize_dotted_i)
  next
    case False
    then show ?thesis by (simp add: s toLowerCase_def lowerUnit_def)
  qed
qed

text \<open>
  C6: \<open>search\<close> returns the empty list, and does not throw, when the engine is not loaded,
  or the trimmed query has fewer than 2 characters, or the trimmed, lower-cased query has
  no token (every token has at least 2 characters). The minimal query length is the 2 of
  the configuration the constructor sets.
\<close>

theorem search_degrades_to_empty:
  assumes "minQueryLength (e_config st) = 2"
      and "\<not> e_loaded st
           \<or> length (str_trim (orStr query [])) < 2
           \<or> tokenize (toLowerCase (str_trim (orStr query []))) = []"
  shows "search st query options = Inr []"
  using assms toLowerCase_short [of "str_trim (orStr query [])"]
  by (auto simp: search_def Let_def)

theorem search_degrades_to_empty_witness:
  "minQueryLength (e_config new_engine) = 2
   \<and> \<not> e_loaded new_engine
   \<and> length (str_trim (orStr (Some (asc ''x'')) [])) < 2
   \<and> tokenize (toLowerCase (str_trim (orStr (Some (asc ''x'')) []))) = []
   \<and> search new_engine (Some (asc ''x'')) no_options = Inr []"
proof -
  have a: "minQueryLength (e_config new_engine) = 2"
    by (simp add: new_engine_def default_config_def)
  have b: "\<not> e_loaded new_engine" by (simp add: new_engine_def)
  have c: "length (str_trim (orStr (Some (asc ''x'')) [])) < 2"
    by code_simp
  have d: "tokenize (toLowerCase (str_trim (orStr (Some (asc ''x'')) []))) = []"
    by code_simp
  show ?thesis
    using a b c d search_degrades_to_empty [of new_engine "Some (asc ''x'')" no_options] by simp
qed

lemma scoreCandidates_filtered:
  "scoreCandidates st fv fc queryTerms query cands = Inr rs \<Longrightarrow> r \<in> set rs \<Longrightarrow>
     (fv \<noteq> None \<longrightarrow> d_version (r_doc r) = fv) \<and> (fc \<noteq> None \<longrightarrow> d_category (r_doc r) = fc)"
proof (induction cands arbitrary: rs)
  case Nil
  then show ?case by simp
next
  case (Cons docIndex rest)
  then show ?case
    by (auto simp: Let_def split: option.splits if_splits sum.splits)
qed

lemma filterOf_Some: "v \<noteq> [] \<Longrightarrow> filterOf (Some v) = Some v"
  by (simp add: filterOf_def)

text \<open>
  C5: every record \<open>search\<close> returns under a version filter has that version, and every
  record it returns under a category filter has that category. A filter is set when the
  option is a non-empty string (\<open>options.version || null\<close>).
\<close>

theorem search_respects_filters:
  assumes "search st query options = Inr rs" and "r \<in> set rs"
  shows "(\<forall>v. o_version options = Some v \<and> v \<noteq> [] \<longrightarrow> d_version (r_doc r) = Some v)
       \<and> (\<forall>c. o_category options = Some c \<and> c \<noteq> [] \<longrightarrow> d_category (r_doc r) = Some c)"
proof (cases "rs = []")
  case True
  with assms show ?thesis by simp
next
  case False
  with assms(1) obtain ix scoredDocs n where
      sc: "scoreCandidates st (filterOf (o_version options)) (filterOf (o_category options))
             (tokenize (toLowerCase (str_trim (orStr query []))))
             (toLowerCase (str_trim (orStr query [])))
             (findCandidates (e_config st) ix (tokenize (toLowerCase (str_trim (orStr query [])))))
           = Inr scoredDocs"
    and rs: "rs = take n (sort_key (\<lambda>r. - r_score r) scoredDocs)"
    by (auto simp: search_def Let_def split: if_splits option.splits sum.splits)
  from rs assms(2) have "r \<in> set scoredDocs"
    by (auto dest: in_set_takeD)
  from scoreCandidates_filtered [OF sc this] show ?thesis
    by (auto simp: filterOf_Some)
qed

lemma search_java_62:
  "search loaded_engine (Some (asc ''java''))
     \<lparr> o_version = Some (asc ''6.2''), o_category = Some (asc ''Magnolia 6.2''), o_maxResults = None \<rparr>
   = Inr [\<lparr> r_doc = doc_62, r_score = 8481 / 50 \<rparr>]"
  by code_simp

theorem search_respects_filters_witness:
  "search loaded_engine (Some (asc ''java''))
     \<lparr> o_version = Some (asc ''6.2''), o_category = Some (asc ''Magnolia 6.2''), o_maxResults = None \<rparr>
   = Inr [\<lparr> r_doc = doc_62, r_score = 8481 / 50 \<rparr>]
   \<and> d_version doc_62 = Some (asc ''6.2'') \<and> d_category doc_62 = Some (asc ''Magnolia 6.2'')"
  using search_respects_filters [OF search_java_62, of "\<lparr> r_doc = doc_62, r_score = 8481 / 50 \<rparr>"]
        search_java_62
  by (simp add: asc_def)

lemma foldl_invariant:
  assumes "P a" and "\<And>a x. P a \<Longrightarrow> x \<in> set xs \<Longrightarrow> P (f a x)"
  shows "P (foldl f a xs)"
  using assms by (induction xs arbitrary: a) simp_all

lemma postingsIn_snoc_empty:
  "postingsIn v ix \<Longrightarrow> postingsIn v (ix @ [(word, [])])"
  by (auto simp: postingsIn_def)

lemma postingsIn_push:
  assumes "postingsIn v ix" and "docAt v k = Inr dk"
  shows "postingsIn v
           (map (\<lambda>(w, arr). if w = word \<and> k \<notin> set arr then (w, arr @ [k]) else (w, arr)) ix)"
  unfolding postingsIn_def
proof (intro allI impI)
  fix w arr i
  assume "(w, arr) \<in> set (map (\<lambda>(w, arr). if w = word \<and> k \<notin> set arr
                                           then (w, arr @ [k]) else (w, arr)) ix)"
     and i: "i \<in> set arr"
  then obtain w0 arr0 where m: "(w0, arr0) \<in> set ix"
      and e: "(w, arr) = (if w0 = word \<and> k \<notin> set arr0 then (w0, arr0 @ [k]) else (w0, arr0))"
    by auto
  from e i have "i \<in> set arr0 \<or> i = k" by (auto split: if_splits)
  with m assms show "\<exists>d. docAt v i = Inr d" by (auto simp: postingsIn_def)
qed

lemma addPosting_in:
  assumes "postingsIn v ix" and "docAt v k = Inr dk"
  shows "postingsIn v (addPosting ix word k)"
  using assms
  by (simp add: addPosting_def Let_def postingsIn_push postingsIn_snoc_empty)

text \<open>
  The loop of \<open>_buildInvertedIndex\<close> records positions of records only, also when it stops
  at a \<open>null\<close> element.
\<close>

lemma indexDocs_in:
  assumes "postingsIn (IndexArray (pre @ rest)) ix"
  shows "postingsIn (IndexArray (pre @ rest)) (snd (indexDocs (length pre) rest ix))"
  using assms
proof (induction rest arbitrary: pre ix)
  case Nil
  then show ?case by simp
next
  case (Cons e rest)
  show ?case
  proof (cases e)
    case ElemNull
    with Cons.prems show ?thesis by simp
  next
    case (ElemRecord d)
    let ?v = "IndexArray (pre @ e # rest)"
    have at: "docAt ?v (length pre) = Inr d"
      by (simp add: docAt_def ElemRecord)
    have "postingsIn ?v
            (foldl (\<lambda>ix word. addPosting ix word (length pre)) ix
               (tokenize (orStr (d_searchText d) [])))"
      using Cons.prems
      by (intro foldl_invariant [where P = "postingsIn ?v"]) (simp_all add: addPosting_in [OF _ at])
    then have "postingsIn (IndexArray ((pre @ [e]) @ rest))
                 (snd (indexDocs (length (pre @ [e])) rest
                         (foldl (\<lambda>ix word. addPosting ix word (length pre)) ix
                            (tokenize (orStr (d_searchText d) [])))))"
      by (intro Cons.IH) simp
    then show ?thesis by (simp add: ElemRecord)
  qed
qed

lemma buildInvertedIndex_in: "postingsIn v (snd (buildInvertedIndex v))"
proof (cases v)
  case IndexNull
  then show ?thesis by (simp add: buildInvertedIndex_def postingsIn_def)
next
  case (IndexArray es)
  have "postingsIn (IndexArray ([] @ es)) (snd (indexDocs (length ([] :: elem list)) es []))"
    by (rule indexDocs_in) (simp add: postingsIn_def)
  then show ?thesis by (simp add: buildInvertedIndex_def IndexArray)
next
  case IndexOther
  then show ?thesis by (simp add: buildInvertedIndex_def postingsIn_def)
qed

lemma termCandidates_in:
  assumes "postingsIn v ix" and "\<forall>i \<in> set cands. \<exists>d. docAt v i = Inr d"
  shows "\<forall>i \<in> set (termCandidates cfg ix cands q). \<exists>d. docAt v i = Inr d"
proof
  fix i
  assume "i \<in> set (termCandidates cfg ix cands q)"
  then consider "i \<in> set cands"
    | arr where "map_of ix q = Some arr" "i \<in> set arr"
    | w arr where "(w, arr) \<in> set ix" "i \<in> set arr"
    unfolding set_termCandidates by (auto split: option.splits)
  then show "\<exists>d. docAt v i = Inr d"
  proof cases
    case 1
    with assms(2) show ?thesis by simp
  next
    case 2
    then have "(q, arr) \<in> set ix" by (simp add: map_of_SomeD)
    with 2 assms(1) show ?thesis by (auto simp: postingsIn_def)
  next
    case 3
    with assms(1) show ?thesis by (auto simp: postingsIn_def)
  qed
qed

lemma findCandidates_in:
  assumes "postingsIn v ix"
  shows "\<forall>i \<in> set (findCandidates cfg ix queryTerms). \<exists>d. docAt v i = Inr d"
  unfolding findCandidates_def
  by (rule foldl_invariant [where P = "\<lambda>cands. \<forall>i \<in> set cands. \<exists>d. docAt v i = Inr d"])
     (simp_all add: termCandidates_in [OF assms])

lemma scoreCandidates_total:
  assumes "\<forall>i \<in> set cands. \<exists>d. docAt (e_index st) i = Inr d"
  shows "\<exists>rs. scoreCandidates st fv fc queryTerms query cands = Inr rs"
  using assms
proof (induction cands)
  case Nil
  show ?case by simp
next
  case (Cons i cands)
  then obtain rs d where "scoreCandidates st fv fc queryTerms query cands = Inr rs"
      and "docAt (e_index st) i = Inr d"
    by auto
  then show ?case by simp
qed

text \<open>
  On an engine whose inverted index holds positions of records only, \<open>search\<close> does not
  throw; \<open>load\<close> leaves such an engine whatever the body parses to.
\<close>

lemma search_total:
  assumes "e_invertedIndex st = Some ix" and "postingsIn (e_index st) ix"
  shows "\<exists>rs. search st query options = Inr rs"
proof -
  let ?q = "toLowerCase (str_trim (orStr query []))"
  obtain rs where
    "scoreCandidates st (filterOf (o_version options)) (filterOf (o_category options))
       (tokenize ?q) ?q (findCandidates (e_config st) ix (tokenize ?q)) = Inr rs"
    using scoreCandidates_total [OF findCandidates_in [OF assms(2)]] by blast
  then show ?thesis
    by (simp add: search_def Let_def assms(1))
qed

lemma search_total_after_load:
  assumes "\<not> e_loaded st"
  shows "\<exists>rs. search (snd (load st (FetchResponse True (BodyJson v)))) query options = Inr rs"
proof (rule search_total)
  show "e_invertedIndex (snd (load st (FetchResponse True (BodyJson v))))
          = Some (snd (buildInvertedIndex v))"
    using assms by (simp add: load_def Let_def case_prod_beta split: option.splits)
  show "postingsIn (e_index (snd (load st (FetchResponse True (BodyJson v)))))
          (snd (buildInvertedIndex v))"
    using assms buildInvertedIndex_in [of v]
    by (simp add: load_def Let_def case_prod_beta split: option.splits)
qed

text \<open>
  C7: \<open>load\<close> on a loaded engine returns at once and changes nothing; and when the fetch
  does not succeed (it is rejected, or the response is not ok) or the body is not valid
  structured data (\<open>response.json()\<close> rejects it), \<open>load\<close> is rejected and leaves the engine
  as it was: not loaded, with the same record array and inverted index. These are the
  failures of the fetch and of the parse; all three come before the first assignment.
\<close>

theorem load_idempotent_and_failure_atomic:
  "(e_loaded st \<longrightarrow> load st outcome = (Inr (), st))
   \<and> (\<not> e_loaded st
        \<and> (outcome = FetchRejected \<or> outcome = FetchResponse False b
            \<or> outcome = FetchResponse True BodyInvalid)
      \<longrightarrow> (\<exists>e. load st outcome = (Inl e, st)))"
  by (auto simp: load_def)

theorem load_idempotent_and_failure_atomic_witness:
  "e_loaded loaded_engine
   \<and> load loaded_engine FetchRejected = (Inr (), loaded_engine)
   \<and> \<not> e_loaded new_engine
   \<and> (\<exists>e. load new_engine (FetchResponse True BodyInvalid) = (Inl e, new_engine))"
proof -
  have l: "e_loaded loaded_engine"
    by (simp add: loaded_engine_def load_def new_engine_def Let_def case_prod_beta
             split: option.splits)
  have n: "\<not> e_loaded new_engine" by (simp add: new_engine_def)
  show ?thesis
    using load_idempotent_and_failure_atomic [of loaded_engine FetchRejected BodyInvalid]
          load_idempotent_and_failure_atomic
            [of new_engine "FetchResponse True BodyInvalid" BodyInvalid]
          l n
    by simp
qed

text \<open>
  A body that parses is past those failures: \<open>load\<close> assigns it and marks the engine loaded
  before it builds the inverted index. A value that is neither \<open>null\<close> nor an array, such
  as \<open>{}\<close>, is accepted, and \<open>load\<close> resolves with an empty inverted index. On \<open>null\<close>, and on
  an array with a \<open>null\<close> element, building the inverted index throws and \<open>load\<close> is
  rejected, with the engine already marked loaded.
\<close>

lemma load_parsed_body_marks_loaded:
  "\<not> e_loaded st \<Longrightarrow> e_loaded (snd (load st (FetchResponse True (BodyJson v))))
                     \<and> e_index (snd (load st (FetchResponse True (BodyJson v)))) = v"
  by (simp add: load_def Let_def case_prod_beta split: option.splits)

lemma load_other_value_resolves:
  "\<not> e_loaded st \<Longrightarrow>
     load st (FetchResponse True (BodyJson IndexOther))
       = (Inr (), st \<lparr> e_index := IndexOther, e_loaded := True, e_invertedIndex := Some [] \<rparr>)"
  by (simp add: load_def buildInvertedIndex_def)

lemma load_null_rejected:
  "\<not> e_loaded st \<Longrightarrow>
     load st (FetchResponse True (BodyJson IndexNull))
       = (Inl TypeError,
          st \<lparr> e_index := IndexNull, e_loaded := True, e_invertedIndex := Some [] \<rparr>)"
  by (simp add: load_def buildInvertedIndex_def)

lemma load_null_element_rejected:
  "\<not> e_loaded st \<Longrightarrow>
     load st (FetchResponse True (BodyJson (IndexArray [ElemNull])))
       = (Inl TypeError,
          st \<lparr> e_index := IndexArray [ElemNull], e_loaded := True,
               e_invertedIndex := Some [] \<rparr>)"
  by (simp add: load_def buildInvertedIndex_def)

section \<open>The context assembler\<close>




text \<open>
  C10: the sources of \<open>buildContext\<close> are the title and URL of every chunk passed in, in
  order, whether or not its content went into the context.
\<close>

theorem buildContext_sources_all:
  "ctx_sources (buildContext cfg rs)
     = map (\<lambda>r. (c_title (rel_chunk r), c_url (rel_chunk r))) rs"
  by (simp add: buildContext_def case_prod_beta comp_def Let_def)

text \<open>
  Of two chunks of 5000 and 4000 tokens the context holds the first only, and the sources
  name both.
\<close>

lemma buildContext_cites_excluded_chunk:
  "buildContext default_ai_config ranked_chunks =
     \<lparr> ctx_context = asc ''---'' @ nl @ nl @ asc ''# Installing Magnolia CLI'',
       ctx_tokenEstimate = 5000,
       ctx_sources = [((asc ''Installing Magnolia CLI''), asc ''/magnolia-cli/install/''),
                      ((asc ''Java requirements''), asc ''/product-docs/6.2/java/'')] \<rparr>"
  by code_simp

end
